theory Spec2Isabelle
  imports Main
begin

section \<open>Breakpoint records\<close>

text \<open>
  The class \<open>_BreakpointInfo\<close>. Python integers are unbounded, hence \<open>int\<close>.
  \<open>condition_str\<close> is \<open>None\<close> or a string.
\<close>

record breakpoint_info =
  lineno :: int
  file_abs :: string
  condition_str :: "string option"
  initial_ignore_count :: int
  current_ignore_left :: int
  hit_count :: int
  enabled :: bool

definition new_breakpoint_info :: "int \<Rightarrow> string \<Rightarrow> string option \<Rightarrow> int \<Rightarrow> breakpoint_info" where
  "new_breakpoint_info ln f c ig =
     \<lparr>lineno = ln, file_abs = f, condition_str = c, initial_ignore_count = ig,
      current_ignore_left = ig, hit_count = 0, enabled = True\<rparr>"

text \<open>
  Python's \<open>eval(condition_str, frame_globals, frame_locals)\<close> followed by \<open>bool\<close> belongs
  to the host language. It is a parameter of the model: an evaluator maps the expression
  text and the scope of the frame to the truth value of the result, or to \<open>None\<close> when the
  evaluation raises.
\<close>

type_synonym 's evaluator = "string \<Rightarrow> 's \<Rightarrow> bool option"

text \<open>
  Lines 60 to 68 of \<open>should_stop\<close>: \<open>if self.condition_str\<close> is false for \<open>None\<close> and for
  the empty string; an evaluation that raises is reported and counts as false.
\<close>

definition eval_condition :: "'s evaluator \<Rightarrow> breakpoint_info \<Rightarrow> 's \<Rightarrow> bool" where
  "eval_condition ev b sc =
     (case condition_str b of
        None \<Rightarrow> True
      | Some c \<Rightarrow>
          if c = [] then True
          else (case ev c sc of Some v \<Rightarrow> v | None \<Rightarrow> False))"

definition should_stop :: "'s evaluator \<Rightarrow> breakpoint_info \<Rightarrow> 's \<Rightarrow> bool \<times> breakpoint_info" where
  "should_stop ev b sc =
     (if \<not> enabled b then (False, b)
      else
        let b1 = b\<lparr>hit_count := hit_count b + 1\<rparr> in
        if current_ignore_left b1 > 0
        then (False, b1\<lparr>current_ignore_left := current_ignore_left b1 - 1\<rparr>)
        else (eval_condition ev b1 sc, b1))"

section \<open>Breakpoint manager\<close>

text \<open>
  \<open>breakpoints_by_file\<close> and \<open>breakpoints_by_id\<close> hold references to the same
  \<open>_BreakpointInfo\<close> objects, and \<open>should_stop\<close> mutates the object in place. The model
  keeps the objects in an explicit store \<open>objects\<close>, and both dictionaries map to
  addresses of that store; \<open>next_ref\<close> is the next free address.
\<close>

record breakpoint_manager =
  breakpoints_by_file :: "string \<rightharpoonup> (int \<rightharpoonup> nat)"
  next_bp_id :: int
  breakpoints_by_id :: "int \<rightharpoonup> nat"
  objects :: "nat \<rightharpoonup> breakpoint_info"
  next_ref :: nat

definition init_breakpoint_manager :: breakpoint_manager where
  "init_breakpoint_manager =
     \<lparr>breakpoints_by_file = Map.empty, next_bp_id = 1, breakpoints_by_id = Map.empty,
      objects = Map.empty, next_ref = 0\<rparr>"

definition add_breakpoint ::
  "breakpoint_manager \<Rightarrow> string \<Rightarrow> int \<Rightarrow> string option \<Rightarrow> int \<Rightarrow> int \<times> breakpoint_manager" where
  "add_breakpoint bm f ln c ig =
     (let per_file = (case breakpoints_by_file bm f of None \<Rightarrow> Map.empty | Some m \<Rightarrow> m);
          r = next_ref bm;
          bp_id = next_bp_id bm
      in (bp_id,
          bm\<lparr>breakpoints_by_file := (breakpoints_by_file bm)(f \<mapsto> per_file(ln \<mapsto> r)),
             next_bp_id := bp_id + 1,
             breakpoints_by_id := (breakpoints_by_id bm)(bp_id \<mapsto> r),
             objects := (objects bm)(r \<mapsto> new_breakpoint_info ln f c ig),
             next_ref := r + 1\<rparr>))"

text \<open>
  \<open>check_breakpoint\<close> returns the breakpoint object (its address) or \<open>None\<close>. An address
  without an object does not occur for a manager built by \<open>add_breakpoint\<close>; the model
  answers \<open>None\<close> there.
\<close>

definition check_breakpoint ::
  "'s evaluator \<Rightarrow> breakpoint_manager \<Rightarrow> string \<Rightarrow> int \<Rightarrow> 's \<Rightarrow> nat option \<times> breakpoint_manager" where
  "check_breakpoint ev bm f ln sc =
     (case breakpoints_by_file bm f of
        None \<Rightarrow> (None, bm)
      | Some per_file \<Rightarrow>
          (case per_file ln of
             None \<Rightarrow> (None, bm)
           | Some r \<Rightarrow>
               (case objects bm r of
                  None \<Rightarrow> (None, bm)
                | Some b \<Rightarrow>
                    (let (st, b') = should_stop ev b sc
                     in (if st then Some r else None,
                         bm\<lparr>objects := (objects bm)(r \<mapsto> b')\<rparr>)))))"

text \<open>
  \<open>_get_bp_id\<close> walks \<open>breakpoints_by_id.items()\<close> in insertion order, which is the order of
  the ids \<open>1, 2, ...\<close> below \<open>next_bp_id\<close>, and compares the objects by identity. \<open>None\<close>
  is the answer \<open>"?"\<close>.
\<close>

definition get_bp_id :: "breakpoint_manager \<Rightarrow> nat \<Rightarrow> int option" where
  "get_bp_id bm r = find (\<lambda>i. breakpoints_by_id bm i = Some r) [1 .. next_bp_id bm - 1]"

datatype py_error = KeyError | TypeError | NameError

text \<open>
  \<open>clear_breakpoint\<close> called with an integer, as \<open>do_clear\<close> does for a numeric argument.
  The integer \<open>0\<close> is falsy, so the code treats it as a location string and
  \<open>":" in loc_str\<close> raises \<open>TypeError\<close>. Each \<open>del\<close> raises \<open>KeyError\<close> on a missing key.
\<close>

definition clear_breakpoint_id :: "breakpoint_manager \<Rightarrow> int \<Rightarrow> py_error + (bool \<times> breakpoint_manager)" where
  "clear_breakpoint_id bm bp_id =
     (if bp_id = 0 then Inl TypeError
      else
        (case breakpoints_by_id bm bp_id of
           None \<Rightarrow> Inr (False, bm)
         | Some r \<Rightarrow>
             (case objects bm r of
                None \<Rightarrow> Inr (False, bm)
              | Some bp_info \<Rightarrow>
                  (let by_id = (breakpoints_by_id bm)(bp_id := None) in
                   case breakpoints_by_file bm (file_abs bp_info) of
                     None \<Rightarrow> Inl KeyError
                   | Some per_file \<Rightarrow>
                       (case per_file (lineno bp_info) of
                          None \<Rightarrow> Inl KeyError
                        | Some _ \<Rightarrow>
                            (let per_file' = per_file(lineno bp_info := None);
                                 by_file =
                                   (if per_file' = Map.empty
                                    then (breakpoints_by_file bm)(file_abs bp_info := None)
                                    else (breakpoints_by_file bm)(file_abs bp_info \<mapsto> per_file'))
                             in Inr (True, bm\<lparr>breakpoints_by_id := by_id,
                                               breakpoints_by_file := by_file\<rparr>)))))))"

text \<open>A run of hits at one location, each with the scope the frame has at that hit.\<close>

fun check_hits ::
  "'s evaluator \<Rightarrow> breakpoint_manager \<Rightarrow> string \<Rightarrow> int \<Rightarrow> 's list \<Rightarrow> nat option list \<times> breakpoint_manager" where
  "check_hits ev bm f ln [] = ([], bm)"
| "check_hits ev bm f ln (sc # scs) =
     (let (r, bm1) = check_breakpoint ev bm f ln sc;
          (rs, bm2) = check_hits ev bm1 f ln scs
      in (r # rs, bm2))"

text \<open>The breakpoint object that hit evaluation consults at a location.\<close>

definition bp_at :: "breakpoint_manager \<Rightarrow> string \<Rightarrow> int \<Rightarrow> breakpoint_info option" where
  "bp_at bm f ln =
     (case breakpoints_by_file bm f of
        None \<Rightarrow> None
      | Some per_file \<Rightarrow> (case per_file ln of None \<Rightarrow> None | Some r \<Rightarrow> objects bm r))"

text \<open>
  A stand-in for the host's evaluator, for the expression \<open>x > 3\<close> over scopes that bind
  names to integers: an unbound \<open>x\<close> raises.
\<close>

definition eval_x_gt_3 :: "(string \<rightharpoonup> int) evaluator" where
  "eval_x_gt_3 c sc =
     (if c = ''x > 3'' then (case sc ''x'' of None \<Rightarrow> None | Some v \<Rightarrow> Some (v > 3)) else None)"

section \<open>Frames and trace events\<close>

text \<open>
  A frame of the host: the file and the name of its code object, its current line, its
  scope (globals and locals, opaque to the debugger) and the link to its caller. The model
  stores the file name as \<open>path.abspath\<close> returns it.
\<close>

datatype 's frame =
  Frame (co_filename: string) (co_name: string) (f_lineno: int) (f_scope: 's)
        (f_back: "'s frame option")

text \<open>The loop of \<open>_get_frame_depth\<close>, with \<open>depth\<close> as the accumulator.\<close>

fun frame_depth_loop :: "int \<Rightarrow> 's frame option \<Rightarrow> int" where
  "frame_depth_loop depth None = depth"
| "frame_depth_loop depth (Some (Frame fn nm ln sc back)) = frame_depth_loop (depth + 1) back"

definition get_frame_depth :: "'s frame option \<Rightarrow> int" where
  "get_frame_depth frm = frame_depth_loop 0 frm"

text \<open>The loop of \<open>_capture_full_stack\<close>: the frames from the most recent one to the root.\<close>

fun frame_chain :: "'s frame option \<Rightarrow> 's frame list" where
  "frame_chain None = []"
| "frame_chain (Some (Frame fn nm ln sc back)) = Frame fn nm ln sc back # frame_chain back"

text \<open>
  The event names the host passes to the trace function. \<open>trace_dispatch\<close> has branches for
  \<open>call\<close>, \<open>line\<close> and \<open>exception\<close>; \<open>return\<close> takes none of them.
\<close>

datatype event = Call | Line | Return | Exception

section \<open>Stepping state\<close>

record state_manager =
  request_stop_at_next_suitable_event :: bool
  step_into :: bool
  step_over :: bool
  step_over_target_depth :: int
  step_out :: bool
  step_out_target_depth :: int
  run_until_line_info :: "(string \<times> int) option"

definition init_state_manager :: state_manager where
  "init_state_manager =
     \<lparr>request_stop_at_next_suitable_event = True, step_into = False, step_over = False,
      step_over_target_depth = - 1, step_out = False, step_out_target_depth = - 1,
      run_until_line_info = None\<rparr>"

definition reset_stepping_flags :: "state_manager \<Rightarrow> state_manager" where
  "reset_stepping_flags sm = sm\<lparr>step_into := False, step_over := False, step_out := False\<rparr>"

definition configure_for_run :: "state_manager \<Rightarrow> state_manager" where
  "configure_for_run sm =
     (reset_stepping_flags (sm\<lparr>request_stop_at_next_suitable_event := False\<rparr>))
       \<lparr>run_until_line_info := None\<rparr>"

definition configure_for_step_into :: "state_manager \<Rightarrow> state_manager" where
  "configure_for_step_into sm =
     sm\<lparr>request_stop_at_next_suitable_event := True, step_into := True, step_over := False,
        step_out := False, run_until_line_info := None\<rparr>"

definition configure_for_step_over :: "state_manager \<Rightarrow> int \<Rightarrow> state_manager" where
  "configure_for_step_over sm depth =
     sm\<lparr>request_stop_at_next_suitable_event := True, step_over := True, step_into := False,
        step_out := False, step_over_target_depth := depth, run_until_line_info := None\<rparr>"

definition configure_for_step_out :: "state_manager \<Rightarrow> int \<Rightarrow> state_manager" where
  "configure_for_step_out sm depth =
     sm\<lparr>request_stop_at_next_suitable_event := True, step_out := True, step_into := False,
        step_over := False, step_out_target_depth := depth, run_until_line_info := None\<rparr>"

definition configure_for_run_until :: "state_manager \<Rightarrow> string \<Rightarrow> int \<Rightarrow> state_manager" where
  "configure_for_run_until sm file line =
     (reset_stepping_flags (sm\<lparr>request_stop_at_next_suitable_event := True\<rparr>))
       \<lparr>run_until_line_info := Some (file, line)\<rparr>"

section \<open>The debugger session\<close>

text \<open>
  The fields of \<open>PyDebugger\<close> that the dispatch logic and the stack commands use. The
  command history and the alias table belong to the shell.
\<close>

record 's py_debugger =
  execution_frame :: "'s frame option"
  interaction_frame :: "'s frame option"
  full_stack_at_stop :: "'s frame list"
  interaction_stack_idx :: int
  state_manager :: state_manager
  breakpoint_manager :: breakpoint_manager
  watched_expressions :: "string list"
  quit_debugger :: bool

fun list_index :: "'a list \<Rightarrow> 'a \<Rightarrow> nat" where
  "list_index [] x = 0"
| "list_index (y # ys) x = (if y = x then 0 else Suc (list_index ys x))"

text \<open>
  \<open>_capture_full_stack\<close>. Python compares frames by identity; every call in the source
  passes the execution frame itself (or runs with no execution frame), and the frames of one
  chain are pairwise different values, so equality of values finds the same index.
\<close>

definition capture_full_stack :: "'s py_debugger \<Rightarrow> 's frame option \<Rightarrow> 's py_debugger" where
  "capture_full_stack self most_recent_frame =
     (let stack = frame_chain most_recent_frame;
          self1 = self\<lparr>full_stack_at_stop := stack\<rparr>
      in case execution_frame self1 of
           Some ef \<Rightarrow>
             if ef \<in> set stack
             then self1\<lparr>interaction_stack_idx := int (list_index stack ef),
                        interaction_frame := execution_frame self1\<rparr>
             else (case stack of
                     [] \<Rightarrow> self1
                   | newest # _ \<Rightarrow> self1\<lparr>interaction_stack_idx := 0, interaction_frame := Some newest\<rparr>)
         | None \<Rightarrow>
             (case stack of
                [] \<Rightarrow> self1
              | newest # _ \<Rightarrow> self1\<lparr>interaction_stack_idx := 0, interaction_frame := Some newest\<rparr>))"

definition new_py_debugger :: "'s frame \<Rightarrow> 's py_debugger" where
  "new_py_debugger entry_exec_frame =
     capture_full_stack
       \<lparr>execution_frame = Some entry_exec_frame, interaction_frame = Some entry_exec_frame,
        full_stack_at_stop = [], interaction_stack_idx = 0,
        state_manager = init_state_manager, breakpoint_manager = init_breakpoint_manager,
        watched_expressions = [], quit_debugger = False\<rparr>
       (Some entry_exec_frame)"

section \<open>The stop decision of \<open>trace_dispatch\<close>\<close>

datatype stop_reason =
  Initial_entry | First_line | Step_into_reason string | Until_reason | Step_reason
  | Next_reason | Finish_reason | Exception_reason | BP_reason "int option"

text \<open>
  Lines 437 to 471: the branch on the event. The arguments are the stepping state (with the
  pending flag already cleared), \<open>stop_now\<close> and \<open>reason_for_stop\<close> as they stand before
  the branch, the frame and its depth.
\<close>

definition event_decision ::
  "state_manager \<Rightarrow> bool \<Rightarrow> stop_reason option \<Rightarrow> 's frame \<Rightarrow> event \<Rightarrow> int
     \<Rightarrow> bool \<times> stop_reason option \<times> state_manager" where
  "event_decision sm stop_now reason_for_stop frm ev current_depth =
     (case ev of
        Call \<Rightarrow>
          if step_into sm then (True, Some (Step_into_reason (co_name frm)), sm)
          else if step_over sm \<or> step_out sm then (False, reason_for_stop, sm)
          else (stop_now, reason_for_stop, sm)
      | Line \<Rightarrow>
          (case run_until_line_info sm of
             Some (r_file, r_ln) \<Rightarrow>
               if co_filename frm = r_file \<and> f_lineno frm = r_ln
               then (True, Some Until_reason, sm\<lparr>run_until_line_info := None\<rparr>)
               else (stop_now, reason_for_stop, sm)
           | None \<Rightarrow>
               if step_into sm then (True, Some Step_reason, sm)
               else if step_over sm \<and> current_depth \<le> step_over_target_depth sm
               then (True, Some Next_reason, sm)
               else if step_out sm \<and> current_depth \<le> step_out_target_depth sm
               then (True, Some Finish_reason, sm)
               else if stop_now \<and> reason_for_stop = Some Initial_entry
               then (stop_now, Some First_line, sm)
               else (stop_now, reason_for_stop, sm))
      | Exception \<Rightarrow> (True, Some Exception_reason, sm)
      | Return \<Rightarrow> (stop_now, reason_for_stop, sm))"

text \<open>
  \<open>trace_dispatch\<close> up to the call of \<open>cmdloop\<close>: the result is \<open>None\<close> when the session has
  quit (tracing is switched off), and otherwise the decision \<open>stop_now\<close>, the reason and
  the session as the operator finds it at the prompt (when \<open>stop_now\<close>) or as the next event
  finds it (otherwise). Printing is left out.
\<close>

definition trace_dispatch ::
  "'s evaluator \<Rightarrow> 's py_debugger \<Rightarrow> 's frame \<Rightarrow> event
     \<Rightarrow> (bool \<times> stop_reason option \<times> 's py_debugger) option" where
  "trace_dispatch evl self frm ev =
     (if quit_debugger self then None
      else
        let self1 = self\<lparr>execution_frame := Some frm\<rparr>;
            stop0 = request_stop_at_next_suitable_event (state_manager self1);
            sm0 = (state_manager self1)\<lparr>request_stop_at_next_suitable_event := False\<rparr>;
            current_file_abs = co_filename frm;
            current_depth = get_frame_depth (Some frm);
            reason0 = (if stop0 then Some Initial_entry else None);
            (stop1, reason1, sm1) = event_decision sm0 stop0 reason0 frm ev current_depth;
            (stop2, reason2, bm2) =
              (if \<not> stop1
               then
                 (let (bp_info, bm') =
                        check_breakpoint evl (breakpoint_manager self1) current_file_abs
                          (f_lineno frm) (f_scope frm)
                  in case bp_info of
                       Some r \<Rightarrow> (True, Some (BP_reason (get_bp_id bm' r)), bm')
                     | None \<Rightarrow> (stop1, reason1, bm'))
               else (stop1, reason1, breakpoint_manager self1));
            self2 = self1\<lparr>state_manager := sm1, breakpoint_manager := bm2\<rparr>
        in if stop2
           then
             (let self3 = (capture_full_stack self2 (execution_frame self2))
                            \<lparr>interaction_frame := execution_frame self2,
                             interaction_stack_idx := 0\<rparr>;
                  sm3 = (if step_into (state_manager self3) \<or> step_over (state_manager self3)
                            \<or> step_out (state_manager self3)
                         then reset_stepping_flags (state_manager self3)
                         else state_manager self3)
              in Some (True, reason2, self3\<lparr>state_manager := sm3\<rparr>))
           else Some (False, reason2, self2))"

text \<open>
  The events of a resumed program, up to the first stop: the position of the event at which
  \<open>trace_dispatch\<close> stops, with the reason and the session at the prompt. \<open>None\<close>: no
  event of the list stops.
\<close>

fun run_to_stop ::
  "'s evaluator \<Rightarrow> 's py_debugger \<Rightarrow> ('s frame \<times> event) list
     \<Rightarrow> (nat \<times> stop_reason option \<times> 's py_debugger) option" where
  "run_to_stop evl self [] = None"
| "run_to_stop evl self ((frm, ev) # es) =
     (case trace_dispatch evl self frm ev of
        None \<Rightarrow> None
      | Some (stop_now, reason, self') \<Rightarrow>
          if stop_now then Some (0, reason, self')
          else map_option (\<lambda>(i, r, s). (Suc i, r, s)) (run_to_stop evl self' es))"

section \<open>Resume commands\<close>

text \<open>
  Each command returns the session and whether \<open>cmdloop\<close> ends (the method's return value is
  true), which resumes the program.
\<close>

definition do_next :: "'s py_debugger \<Rightarrow> bool \<times> 's py_debugger" where
  "do_next self =
     (True, self\<lparr>state_manager :=
        configure_for_step_over (state_manager self) (get_frame_depth (execution_frame self))\<rparr>)"

definition do_step :: "'s py_debugger \<Rightarrow> bool \<times> 's py_debugger" where
  "do_step self = (True, self\<lparr>state_manager := configure_for_step_into (state_manager self)\<rparr>)"

definition do_continue :: "'s py_debugger \<Rightarrow> bool \<times> 's py_debugger" where
  "do_continue self = (True, self\<lparr>state_manager := configure_for_run (state_manager self)\<rparr>)"

definition do_quit :: "'s py_debugger \<Rightarrow> bool \<times> 's py_debugger" where
  "do_quit self = (True, self\<lparr>quit_debugger := True\<rparr>)"

definition do_finish :: "'s py_debugger \<Rightarrow> bool \<times> 's py_debugger" where
  "do_finish self =
     (case execution_frame self of
        None \<Rightarrow> (False, self)
      | Some ef \<Rightarrow>
          (case f_back ef of
             None \<Rightarrow> (False, self)
           | Some caller \<Rightarrow>
               (True, self\<lparr>state_manager :=
                  configure_for_step_out (state_manager self) (get_frame_depth (Some caller))\<rparr>)))"

text \<open>
  The argument string of a command that takes a number: empty, a string that \<open>int\<close>
  converts, or a string on which \<open>int\<close> raises \<open>ValueError\<close>.
\<close>

datatype int_arg = No_arg | Int_arg int | Bad_arg

definition do_rununtil :: "'s py_debugger \<Rightarrow> int_arg \<Rightarrow> bool \<times> 's py_debugger" where
  "do_rununtil self arg =
     (case arg of
        No_arg \<Rightarrow> (False, self)
      | Bad_arg \<Rightarrow>
          (False, self)
      | Int_arg ln \<Rightarrow>
          (case execution_frame self of
             None \<Rightarrow> (False, self)
           | Some ef \<Rightarrow>
               (True, self\<lparr>state_manager :=
                  configure_for_run_until (state_manager self) (co_filename ef) ln\<rparr>)))"


section \<open>Session entry and sample sessions\<close>

text \<open>
  The decorator's \<open>_initial_trace_for_this_func_entry\<close>, at the \<open>call\<close> event of the decorated
  function: it builds the session on the entered frame and hands that event to
  \<open>trace_dispatch\<close>.
\<close>

definition initial_trace_for_this_func_entry ::
  "'s evaluator \<Rightarrow> 's frame \<Rightarrow> (bool \<times> stop_reason option \<times> 's py_debugger) option" where
  "initial_trace_for_this_func_entry evl frame =
     trace_dispatch evl (new_py_debugger frame) frame Call"

text \<open>
  \<open>do_break\<close> once \<open>parse_location_string\<close> has resolved the location: it calls
  \<open>add_breakpoint(file_abs, line_no, cond)\<close>, and \<open>cmdloop\<close> goes on.
\<close>

definition do_break_at :: "'s py_debugger \<Rightarrow> string \<Rightarrow> int \<Rightarrow> string option \<Rightarrow> bool \<times> 's py_debugger" where
  "do_break_at self f ln cond =
     (False, self\<lparr>breakpoint_manager := snd (add_breakpoint (breakpoint_manager self) f ln cond 0)\<rparr>)"

text \<open>
  A sample program: \<open>main\<close> (depth 1) calls the decorated \<open>work\<close> at its line 30 (depth 2), which may call
  \<open>helper\<close> (depth 3). Scopes carry nothing, and no expression evaluates.
\<close>

definition demo_main :: "int \<Rightarrow> unit frame" where
  "demo_main ln = Frame ''/app.py'' ''main'' ln () None"

definition demo_work :: "int \<Rightarrow> unit frame" where
  "demo_work ln = Frame ''/app.py'' ''work'' ln () (Some (demo_main 30))"

definition demo_helper :: "int \<Rightarrow> unit frame" where
  "demo_helper ln = Frame ''/app.py'' ''helper'' ln () (Some (demo_work 11))"

definition no_eval :: "unit evaluator" where
  "no_eval c sc = None"

text \<open>The session at its first prompt, stopped on entry to \<open>work\<close> at line 10.\<close>

definition demo_session :: "unit py_debugger" where
  "demo_session =
     (case initial_trace_for_this_func_entry no_eval (demo_work 10) of
        Some (stop_now, reason, s) \<Rightarrow> s
      | None \<Rightarrow> new_py_debugger (demo_work 10))"

section \<open>Notions used to state the stepping properties\<close>

text \<open>The position of the first element of a list that satisfies \<open>P\<close>.\<close>

fun first_position :: "('a \<Rightarrow> bool) \<Rightarrow> 'a list \<Rightarrow> nat option" where
  "first_position P [] = None"
| "first_position P (x # xs) = (if P x then Some 0 else map_option Suc (first_position P xs))"

text \<open>No breakpoint is registered for matching at the location of the frame.\<close>

definition no_breakpoint_at :: "breakpoint_manager \<Rightarrow> 's frame \<Rightarrow> bool" where
  "no_breakpoint_at bm frm = (bp_at bm (co_filename frm) (f_lineno frm) = None)"

text \<open>
  A running session in step-over mode with target depth \<open>d\<close>, whose pending flag has been
  consumed by an earlier event.
\<close>

definition step_over_armed :: "int \<Rightarrow> breakpoint_manager \<Rightarrow> 's py_debugger \<Rightarrow> bool" where
  "step_over_armed d bm s =
     (\<not> quit_debugger s \<and> breakpoint_manager s = bm
      \<and> \<not> request_stop_at_next_suitable_event (state_manager s)
      \<and> step_over (state_manager s) \<and> \<not> step_into (state_manager s)
      \<and> \<not> step_out (state_manager s)
      \<and> step_over_target_depth (state_manager s) = d
      \<and> run_until_line_info (state_manager s) = None)"

text \<open>The line event that ends a step-over with target depth \<open>d\<close>.\<close>

definition line_at_or_above :: "int \<Rightarrow> 's frame \<times> event \<Rightarrow> bool" where
  "line_at_or_above d fe = (snd fe = Line \<and> get_frame_depth (Some (fst fe)) \<le> d)"


section \<open>Stack navigation\<close>

text \<open>
  What \<open>do_up_stack\<close> and \<open>do_down_stack\<close> print: \<open>"No stack."\<close>, \<open>"Invalid count."\<close>,
  \<open>"Cannot move further up."\<close>, \<open>"Cannot move further down."\<close>, or the location of the frame
  moved to.
\<close>

datatype nav_message =
  No_stack | Invalid_count | Cannot_move_further_up | Cannot_move_further_down
  | Moved_to_frame int

text \<open>The count \<open>c\<close>: 1 for an empty argument, \<open>int(arg_str)\<close> otherwise; \<open>None\<close> on \<open>ValueError\<close>.\<close>

fun count_of :: "int_arg \<Rightarrow> int option" where
  "count_of No_arg = Some 1"
| "count_of (Int_arg c) = Some c"
| "count_of Bad_arg = None"

definition do_up_stack :: "'s py_debugger \<Rightarrow> int_arg \<Rightarrow> nav_message \<times> 's py_debugger" where
  "do_up_stack self arg_str =
     (if full_stack_at_stop self = [] then (No_stack, self)
      else
        (case count_of arg_str of
           None \<Rightarrow> (Invalid_count, self)
         | Some c \<Rightarrow>
             (let idx = interaction_stack_idx self;
                  n_idx = idx + c
              in if 0 \<le> n_idx \<and> n_idx < int (length (full_stack_at_stop self))
                 then (Moved_to_frame n_idx,
                       self\<lparr>interaction_stack_idx := n_idx,
                            interaction_frame := Some (full_stack_at_stop self ! nat n_idx)\<rparr>)
                 else (Cannot_move_further_up, self))))"

definition do_down_stack :: "'s py_debugger \<Rightarrow> int_arg \<Rightarrow> nav_message \<times> 's py_debugger" where
  "do_down_stack self arg_str =
     (if full_stack_at_stop self = [] then (No_stack, self)
      else
        (case count_of arg_str of
           None \<Rightarrow> (Invalid_count, self)
         | Some c \<Rightarrow>
             (let idx = interaction_stack_idx self;
                  n_idx = idx - c
              in if 0 \<le> n_idx \<and> n_idx < int (length (full_stack_at_stop self))
                 then (Moved_to_frame n_idx,
                       self\<lparr>interaction_stack_idx := n_idx,
                            interaction_frame := Some (full_stack_at_stop self ! nat n_idx)\<rparr>)
                 else (Cannot_move_further_down, self))))"

text \<open>The same breakpoint location set twice on a fresh manager.\<close>

definition set_twice :: breakpoint_manager where
  "set_twice =
     snd (add_breakpoint (snd (add_breakpoint init_breakpoint_manager ''/app.py'' 10 None 0))
            ''/app.py'' 10 None 0)"


section \<open>Resolving a function name\<close>

text \<open>
  The part of a parsed module that \<open>_FunctionFinder\<close> distinguishes: \<open>FunctionDef\<close>,
  \<open>AsyncFunctionDef\<close> and \<open>ClassDef\<close> nodes with their name, their \<open>lineno\<close> and their child
  nodes, and every other node (the module itself, an \<open>if\<close>, a \<open>try\<close>, an expression) with its
  child nodes in the order of \<open>generic_visit\<close>.
\<close>

datatype ast_node =
  FunctionDef string int "ast_node list"
  | AsyncFunctionDef string int "ast_node list"
  | ClassDef string int "ast_node list"
  | Other_node "ast_node list"

record function_finder =
  func_name_parts :: "string list"
  target_lineno :: "int option"
  current_path :: "string list"

definition new_function_finder :: "string list \<Rightarrow> function_finder" where
  "new_function_finder parts =
     \<lparr>func_name_parts = parts, target_lineno = None, current_path = []\<rparr>"

text \<open>Python's \<open>not x\<close> for a value that is \<open>None\<close> or an integer.\<close>

fun falsy :: "int option \<Rightarrow> bool" where
  "falsy None = True"
| "falsy (Some l) = (l = 0)"

text \<open>
  \<open>visit\<close> dispatches on the class of the node; \<open>visit_AsyncFunctionDef\<close> calls
  \<open>visit_FunctionDef\<close>; \<open>generic_visit\<close> visits the child nodes in order. \<open>parts[:k]\<close> is
  \<open>take k parts\<close>, and \<open>pop\<close> removes the name that the same call appended.
\<close>

fun visit :: "function_finder \<Rightarrow> ast_node \<Rightarrow> function_finder"
  and generic_visit :: "function_finder \<Rightarrow> ast_node list \<Rightarrow> function_finder" where
  "visit self (FunctionDef name ln body) =
     (let self1 = self\<lparr>current_path := current_path self @ [name]\<rparr>;
          self2 = (if length (current_path self1) = length (func_name_parts self1)
                      \<and> current_path self1 = func_name_parts self1
                   then self1\<lparr>target_lineno := Some ln\<rparr> else self1);
          self3 = (if falsy (target_lineno self2)
                      \<and> length (current_path self2) < length (func_name_parts self2)
                      \<and> take (length (current_path self2)) (func_name_parts self2)
                          = current_path self2
                   then generic_visit self2 body else self2)
      in self3\<lparr>current_path := butlast (current_path self3)\<rparr>)"
| "visit self (AsyncFunctionDef name ln body) =
     (let self1 = self\<lparr>current_path := current_path self @ [name]\<rparr>;
          self2 = (if length (current_path self1) = length (func_name_parts self1)
                      \<and> current_path self1 = func_name_parts self1
                   then self1\<lparr>target_lineno := Some ln\<rparr> else self1);
          self3 = (if falsy (target_lineno self2)
                      \<and> length (current_path self2) < length (func_name_parts self2)
                      \<and> take (length (current_path self2)) (func_name_parts self2)
                          = current_path self2
                   then generic_visit self2 body else self2)
      in self3\<lparr>current_path := butlast (current_path self3)\<rparr>)"
| "visit self (ClassDef name ln body) =
     (let self1 = self\<lparr>current_path := current_path self @ [name]\<rparr>;
          self2 = (if length (current_path self1) \<le> length (func_name_parts self1)
                      \<and> take (length (current_path self1)) (func_name_parts self1)
                          = current_path self1
                   then generic_visit self1 body else self1)
      in self2\<lparr>current_path := butlast (current_path self2)\<rparr>)"
| "visit self (Other_node body) = generic_visit self body"
| "generic_visit self [] = self"
| "generic_visit self (node # nodes) = generic_visit (visit self node) nodes"

text \<open>\<open>str.split(sep)\<close> for a separator of one character.\<close>

fun split_on :: "char \<Rightarrow> string \<Rightarrow> string list" where
  "split_on sep [] = [[]]"
| "split_on sep (c # cs) =
     (if c = sep then [] # split_on sep cs
      else (case split_on sep cs of
              [] \<Rightarrow> [[c]]
            | w # ws \<Rightarrow> (c # w) # ws))"

text \<open>
  \<open>_find_func_lineno_using_ast\<close>, given what \<open>_load_ast_with_cache\<close> returned: the tree, or
  \<open>None\<close> when the file is missing or does not parse. On \<open>None\<close> the second line evaluates
  \<open>_FunctionFinder([])\<close>, a name of the class body that the method does not see, which
  raises \<open>NameError\<close>.
\<close>

definition find_func_lineno_using_ast :: "ast_node option \<Rightarrow> string \<Rightarrow> py_error + int option" where
  "find_func_lineno_using_ast tree func_spec =
     (case tree of
        None \<Rightarrow> Inl NameError
      | Some t \<Rightarrow>
          Inr (target_lineno (visit (new_function_finder (split_on CHR ''.'' func_spec)) t)))"

text \<open>
  The claim's notion of a declaration nested at a path: the lines of the function
  declarations (\<open>def\<close> or \<open>async def\<close>) of a tree whose enclosing declarations, from the outside
  in, followed by their own name, spell \<open>parts\<close>. \<open>path\<close> holds the names of the declarations
  around the node.
\<close>

fun function_lines :: "string list \<Rightarrow> string list \<Rightarrow> ast_node \<Rightarrow> int list"
  and function_lines_list :: "string list \<Rightarrow> string list \<Rightarrow> ast_node list \<Rightarrow> int list" where
  "function_lines parts path (FunctionDef name ln body) =
     (if path @ [name] = parts then [ln] else []) @ function_lines_list parts (path @ [name]) body"
| "function_lines parts path (AsyncFunctionDef name ln body) =
     (if path @ [name] = parts then [ln] else []) @ function_lines_list parts (path @ [name]) body"
| "function_lines parts path (ClassDef name ln body) =
     function_lines_list parts (path @ [name]) body"
| "function_lines parts path (Other_node body) = function_lines_list parts path body"
| "function_lines_list parts path [] = []"
| "function_lines_list parts path (node # nodes) =
     function_lines parts path node @ function_lines_list parts path nodes"

text \<open>
  A visit keeps the searched name and restores the path; the target it leaves is the one it
  found, or the line of a function nested at the searched path below the node.
\<close>

definition visit_ok :: "function_finder \<Rightarrow> function_finder \<Rightarrow> int list \<Rightarrow> bool" where
  "visit_ok self self' ls =
     (func_name_parts self' = func_name_parts self \<and> current_path self' = current_path self
      \<and> (target_lineno self' = target_lineno self \<or> (\<exists>l \<in> set ls. target_lineno self' = Some l)))"


text \<open>
  The outline of \<open>tests.py\<close>: the class \<open>MyClassDemo\<close> (line 4) with its three methods, the
  function \<open>top_level_function_demo\<close> (line 30) with the function \<open>nested_func_demo\<close> (line 43)
  declared in its body after an \<open>if\<close> statement, and the final \<open>if __name__ == "__main__"\<close>.
  Statements without declarations are \<open>Other_node []\<close>.
\<close>

definition tests_module :: ast_node where
  "tests_module =
     Other_node
       [Other_node [],
        ClassDef ''MyClassDemo'' 4
          [Other_node [], Other_node [],
           FunctionDef ''__init__'' 9 [Other_node [], Other_node []],
           FunctionDef ''my_method'' 16
             [Other_node [], Other_node [], Other_node [], Other_node [Other_node []],
              Other_node []],
           FunctionDef ''another_method'' 24 [Other_node [], Other_node []]],
        FunctionDef ''top_level_function_demo'' 30
          [Other_node [], Other_node [], Other_node [],
           Other_node [Other_node [], Other_node [], Other_node [], Other_node [], Other_node []],
           FunctionDef ''nested_func_demo'' 43 [Other_node [], Other_node [], Other_node []],
           Other_node [], Other_node [], Other_node []],
        Other_node [Other_node [], Other_node [], Other_node [], Other_node [], Other_node [],
                    Other_node [], Other_node [], Other_node []]]"

section \<open>Hit evaluation\<close>

lemma check_breakpoint_ignoring:
  assumes "breakpoints_by_file bm f = Some per_file" and "per_file ln = Some r"
    and "objects bm r = Some b" and "enabled b" and "0 < current_ignore_left b"
  shows "check_breakpoint ev bm f ln sc =
           (None, bm\<lparr>objects := (objects bm)(r \<mapsto>
              b\<lparr>hit_count := hit_count b + 1, current_ignore_left := current_ignore_left b - 1\<rparr>)\<rparr>)"
  using assms by (simp add: check_breakpoint_def should_stop_def Let_def)

lemma check_breakpoint_firing:
  assumes "breakpoints_by_file bm f = Some per_file" and "per_file ln = Some r"
    and "objects bm r = Some b" and "enabled b" and "\<not> 0 < current_ignore_left b"
  shows "check_breakpoint ev bm f ln sc =
           (if eval_condition ev b sc then Some r else None,
            bm\<lparr>objects := (objects bm)(r \<mapsto> b\<lparr>hit_count := hit_count b + 1\<rparr>)\<rparr>)"
  using assms by (simp add: check_breakpoint_def should_stop_def Let_def eval_condition_def)

lemma eval_condition_counters [simp]:
  "eval_condition ev (b\<lparr>hit_count := h\<rparr>) sc = eval_condition ev b sc"
  "eval_condition ev (b\<lparr>current_ignore_left := c\<rparr>) sc = eval_condition ev b sc"
  by (simp_all add: eval_condition_def)

lemma check_hits_append:
  "check_hits ev bm f ln (xs @ ys) =
     (let (rs, bm1) = check_hits ev bm f ln xs;
          (rs', bm2) = check_hits ev bm1 f ln ys
      in (rs @ rs', bm2))"
  by (induction xs arbitrary: bm) (simp_all add: Let_def split: prod.splits)

lemma check_hits_ignored:
  assumes "breakpoints_by_file bm f = Some per_file" and "per_file ln = Some r"
    and "objects bm r = Some b" and "enabled b"
    and "current_ignore_left b = int (length scs) + k" and "0 \<le> k"
  shows "fst (check_hits ev bm f ln scs) = replicate (length scs) None
       \<and> breakpoints_by_file (snd (check_hits ev bm f ln scs)) = breakpoints_by_file bm
       \<and> objects (snd (check_hits ev bm f ln scs)) r =
           Some (b\<lparr>hit_count := hit_count b + int (length scs), current_ignore_left := k\<rparr>)"
  using assms
proof (induction scs arbitrary: bm b)
  case Nil
  then show ?case by simp
next
  case (Cons sc scs)
  let ?b1 = "b\<lparr>hit_count := hit_count b + 1, current_ignore_left := current_ignore_left b - 1\<rparr>"
  let ?bm1 = "bm\<lparr>objects := (objects bm)(r \<mapsto> ?b1)\<rparr>"
  from Cons.prems have pos: "0 < current_ignore_left b" by simp
  have step: "check_breakpoint ev bm f ln sc = (None, ?bm1)"
    using Cons.prems(1-4) pos by (rule check_breakpoint_ignoring)
  have rest: "fst (check_hits ev ?bm1 f ln scs) = replicate (length scs) None
       \<and> breakpoints_by_file (snd (check_hits ev ?bm1 f ln scs)) = breakpoints_by_file ?bm1
       \<and> objects (snd (check_hits ev ?bm1 f ln scs)) r =
           Some (?b1\<lparr>hit_count := hit_count ?b1 + int (length scs), current_ignore_left := k\<rparr>)"
    using Cons.prems by (intro Cons.IH) simp_all
  have unfold: "check_hits ev bm f ln (sc # scs) =
      (None # fst (check_hits ev ?bm1 f ln scs), snd (check_hits ev ?bm1 f ln scs))"
    by (simp add: step split: prod.splits)
  show ?case
    unfolding unfold using rest by (simp add: add.assoc)
qed

text \<open>
  Claim C5. An enabled breakpoint whose remaining ignore budget is \<open>n > 0\<close> is hit
  \<open>n + 1\<close> times at its location: the first \<open>n\<close> hits return no breakpoint (no stop), after
  \<open>k \<le> n\<close> of them the remaining budget is \<open>n - k\<close>, and the hit number \<open>n + 1\<close> returns
  the breakpoint exactly when its condition holds (or it has none).
\<close>

theorem ignore_budget_skips_first_hits:
  assumes "breakpoints_by_file bm f = Some per_file" and "per_file ln = Some r"
    and "objects bm r = Some b" and "enabled b"
    and "current_ignore_left b = int n" and "0 < n" and "length scs = n"
  shows "fst (check_hits ev bm f ln (scs @ [sc])) =
           replicate n None @ [if eval_condition ev b sc then Some r else None]
         \<and> (\<forall>k\<le>n. map_option current_ignore_left
                      (bp_at (snd (check_hits ev bm f ln (take k scs))) f ln) = Some (int n - int k))"
proof
  let ?bm = "snd (check_hits ev bm f ln scs)"
  have all: "fst (check_hits ev bm f ln scs) = replicate n None"
    "breakpoints_by_file ?bm f = Some per_file"
    "objects ?bm r = Some (b\<lparr>hit_count := hit_count b + int n, current_ignore_left := 0\<rparr>)"
    using check_hits_ignored [OF assms(1-4), of scs 0 ev] assms by simp_all
  have last: "fst (check_breakpoint ev ?bm f ln sc) = (if eval_condition ev b sc then Some r else None)"
    using check_breakpoint_firing [OF all(2) assms(2) all(3), of ev sc] assms(4) by simp
  show "fst (check_hits ev bm f ln (scs @ [sc])) =
           replicate n None @ [if eval_condition ev b sc then Some r else None]"
    using all(1) last by (simp add: check_hits_append case_prod_beta)
  show "\<forall>k\<le>n. map_option current_ignore_left
                      (bp_at (snd (check_hits ev bm f ln (take k scs))) f ln) = Some (int n - int k)"
  proof (intro allI impI)
    fix k assume "k \<le> n"
    then have "breakpoints_by_file (snd (check_hits ev bm f ln (take k scs))) f = Some per_file"
      "objects (snd (check_hits ev bm f ln (take k scs))) r =
         Some (b\<lparr>hit_count := hit_count b + int (length (take k scs)),
                 current_ignore_left := int n - int k\<rparr>)"
      using check_hits_ignored [OF assms(1-4), of "take k scs" "int n - int k" ev] assms by simp_all
    then show "map_option current_ignore_left
                      (bp_at (snd (check_hits ev bm f ln (take k scs))) f ln) = Some (int n - int k)"
      using assms(2) by (simp add: bp_at_def)
  qed
qed

theorem ignore_budget_skips_first_hits_witness:
  "fst (check_hits eval_x_gt_3 (snd (add_breakpoint init_breakpoint_manager ''/a.py'' 10 (Some ''x > 3'') 2))
          ''/a.py'' 10 ([[''x'' \<mapsto> 9], [''x'' \<mapsto> 9]] @ [[''x'' \<mapsto> 9]]))
     = [None, None, Some 0]"
  using ignore_budget_skips_first_hits [of
      "snd (add_breakpoint init_breakpoint_manager ''/a.py'' 10 (Some ''x > 3'') 2)"
      "''/a.py''" "[10 \<mapsto> 0]" 10 0 "new_breakpoint_info 10 ''/a.py'' (Some ''x > 3'') 2" 2
      "[[''x'' \<mapsto> 9], [''x'' \<mapsto> 9]]" eval_x_gt_3 "[''x'' \<mapsto> 9]"]
  by (simp add: add_breakpoint_def init_breakpoint_manager_def new_breakpoint_info_def
      eval_condition_def eval_x_gt_3_def numeral_2_eq_2)

lemma demo_depths:
  "get_frame_depth (Some (demo_main l)) = 1"
  "get_frame_depth (Some (demo_work ln)) = 2"
  "get_frame_depth (Some (demo_helper ln)) = 3"
  by (simp_all add: get_frame_depth_def demo_main_def demo_work_def demo_helper_def)

lemmas session_defs =
  initial_trace_for_this_func_entry_def trace_dispatch_def
  new_py_debugger_def capture_full_stack_def init_state_manager_def
  init_breakpoint_manager_def event_decision_def Let_def demo_work_def demo_main_def
  demo_helper_def check_breakpoint_def get_frame_depth_def reset_stepping_flags_def

lemma demo_session_entry:
  "initial_trace_for_this_func_entry no_eval (demo_work 10) =
     Some (True, Some Initial_entry, demo_session)"
  by (simp add: demo_session_def session_defs)

lemma demo_session_fields:
  "quit_debugger demo_session = False"
  "execution_frame demo_session = Some (demo_work 10)"
  "state_manager demo_session = init_state_manager\<lparr>request_stop_at_next_suitable_event := False\<rparr>"
  "breakpoint_manager demo_session = init_breakpoint_manager"
  by (simp_all add: demo_session_def session_defs)

text \<open>
  Claim C1, evaluated on the code. The session is suspended in \<open>work\<close> at depth 2 and the
  operator enters \<open>finish\<close>: the target depth is 1, the depth of the caller. The next event is
  a \<open>line\<close> event of \<open>work\<close> itself, still at depth 2, and \<open>trace_dispatch\<close> stops there: the
  pending flag that \<open>configure_for_step_out\<close> sets is still true when the depth test fails, and
  the \<open>line\<close> branch does not clear it. The claim asks for no stop before the first \<open>line\<close>
  event of depth at most 1, which is the third event of the run.
\<close>

theorem finish_stops_on_next_line_of_same_frame:
  "fst (do_finish demo_session) = True
   \<and> step_out_target_depth (state_manager (snd (do_finish demo_session))) = 1
   \<and> get_frame_depth (Some (demo_work 11)) = 2
   \<and> map_option fst (trace_dispatch no_eval (snd (do_finish demo_session)) (demo_work 11) Line)
       = Some True
   \<and> map_option (\<lambda>(i, r, s). (i, r))
        (run_to_stop no_eval (snd (do_finish demo_session))
           [(demo_work 11, Line), (demo_work 12, Return), (demo_main 31, Line)])
       = Some (0, Some First_line)"
  by (simp add: do_finish_def demo_session_fields configure_for_step_out_def session_defs)

text \<open>
  Claim C2, evaluated on the code. The session is suspended in \<open>work\<close> and the operator enters
  \<open>until 42\<close>. The next event is a \<open>line\<close> event at line 11, and \<open>trace_dispatch\<close> stops there,
  with the target still set: the pending flag that \<open>configure_for_run_until\<close> sets stays true
  when the location does not match. The claim asks for the stop at the third event, the one
  at line 42.
\<close>

theorem until_stops_on_next_line:
  "fst (do_rununtil demo_session (Int_arg 42)) = True
   \<and> run_until_line_info (state_manager (snd (do_rununtil demo_session (Int_arg 42))))
       = Some (''/app.py'', 42)
   \<and> map_option (\<lambda>(i, r, s). (i, r, run_until_line_info (state_manager s)))
        (run_to_stop no_eval (snd (do_rununtil demo_session (Int_arg 42)))
           [(demo_work 11, Line), (demo_work 12, Line), (demo_work 42, Line)])
       = Some (0, Some Initial_entry, Some (''/app.py'', 42))"
  by (simp add: do_rununtil_def demo_session_fields configure_for_run_until_def session_defs)

lemma check_breakpoint_none:
  "bp_at bm f ln = None \<Longrightarrow> check_breakpoint evl bm f ln sc = (None, bm)"
  by (auto simp: bp_at_def check_breakpoint_def split: option.splits)

lemma capture_full_stack_keeps [simp]:
  "state_manager (capture_full_stack s f) = state_manager s"
  "breakpoint_manager (capture_full_stack s f) = breakpoint_manager s"
  "quit_debugger (capture_full_stack s f) = quit_debugger s"
  "execution_frame (capture_full_stack s f) = execution_frame s"
  by (simp_all add: capture_full_stack_def Let_def split: option.splits list.splits)

lemma event_decision_flags [simp]:
  "step_into (snd (snd (event_decision sm stop_now reason frm e depth))) = step_into sm"
  "step_over (snd (snd (event_decision sm stop_now reason frm e depth))) = step_over sm"
  "step_out (snd (snd (event_decision sm stop_now reason frm e depth))) = step_out sm"
  "request_stop_at_next_suitable_event (snd (snd (event_decision sm stop_now reason frm e depth)))
     = request_stop_at_next_suitable_event sm"
  "step_over_target_depth (snd (snd (event_decision sm stop_now reason frm e depth)))
     = step_over_target_depth sm"
  "step_out_target_depth (snd (snd (event_decision sm stop_now reason frm e depth)))
     = step_out_target_depth sm"
  by (simp_all add: event_decision_def split: event.splits option.splits prod.splits)

text \<open>The stepping state that \<open>trace_dispatch\<close> leaves, in terms of the branch on the event.\<close>

lemma trace_dispatch_state_manager:
  assumes "trace_dispatch evl s frm e = Some (stop, r, s')"
  shows "state_manager s' =
           (let sm1 = snd (snd (event_decision
                         ((state_manager s)\<lparr>request_stop_at_next_suitable_event := False\<rparr>)
                         (request_stop_at_next_suitable_event (state_manager s))
                         (if request_stop_at_next_suitable_event (state_manager s)
                          then Some Initial_entry else None)
                         frm e (get_frame_depth (Some frm))))
            in if stop \<and> (step_into sm1 \<or> step_over sm1 \<or> step_out sm1)
               then reset_stepping_flags sm1 else sm1)"
proof -
  let ?ed = "event_decision
               ((state_manager s)\<lparr>request_stop_at_next_suitable_event := False\<rparr>)
               (request_stop_at_next_suitable_event (state_manager s))
               (if request_stop_at_next_suitable_event (state_manager s)
                then Some Initial_entry else None)
               frm e (get_frame_depth (Some frm))"
  obtain stop1 reason1 sm1 where ed: "?ed = (stop1, reason1, sm1)"
    by (cases ?ed)
  show ?thesis
    using assms unfolding trace_dispatch_def
    by (auto simp: Let_def ed split: if_splits prod.splits option.splits)
qed

text \<open>
  Claim C10. Whenever \<open>trace_dispatch\<close> decides to stop, the session it hands to \<open>cmdloop\<close> has
  the three flags \<open>step_into\<close>, \<open>step_over\<close> and \<open>step_out\<close> false; and no event sets a flag
  that was false before, so that only a resume command arms a stepping mode.
\<close>

theorem stepping_flags_clear_at_prompt:
  assumes "trace_dispatch evl s frm e = Some (stop, r, s')"
  shows "(stop \<longrightarrow> \<not> step_into (state_manager s') \<and> \<not> step_over (state_manager s')
                  \<and> \<not> step_out (state_manager s'))
       \<and> (step_into (state_manager s') \<longrightarrow> step_into (state_manager s))
       \<and> (step_over (state_manager s') \<longrightarrow> step_over (state_manager s))
       \<and> (step_out (state_manager s') \<longrightarrow> step_out (state_manager s))"
  using trace_dispatch_state_manager [OF assms]
  by (auto simp: Let_def reset_stepping_flags_def split: if_splits)

theorem stepping_flags_clear_at_prompt_witness:
  "trace_dispatch no_eval (snd (do_step demo_session)) (demo_work 11) Line
     = Some (True, Some Step_reason,
             (snd (do_step demo_session))
               \<lparr>execution_frame := Some (demo_work 11),
                interaction_frame := Some (demo_work 11),
                full_stack_at_stop := [demo_work 11, demo_main 30],
                interaction_stack_idx := 0,
                state_manager := init_state_manager\<lparr>request_stop_at_next_suitable_event := False\<rparr>\<rparr>)
   \<and> step_into (state_manager (snd (do_step demo_session)))
   \<and> \<not> step_into (init_state_manager\<lparr>request_stop_at_next_suitable_event := False\<rparr>)"
  using stepping_flags_clear_at_prompt [of no_eval "snd (do_step demo_session)" "demo_work 11" Line
      True "Some Step_reason"]
  by (simp add: do_step_def configure_for_step_into_def demo_session_fields session_defs
      demo_session_def)

lemma armed_line_stops:
  assumes "step_over_armed d bm s" and "line_at_or_above d (frm, e)"
  shows "\<exists>s'. trace_dispatch evl s frm e = Some (True, Some Next_reason, s')"
  using assms
  by (simp add: step_over_armed_def line_at_or_above_def trace_dispatch_def event_decision_def
      Let_def)

lemma armed_other_passes:
  assumes "step_over_armed d bm s" and "\<not> line_at_or_above d (frm, e)"
    and "e \<noteq> Exception" and "no_breakpoint_at bm frm"
  shows "\<exists>r s'. trace_dispatch evl s frm e = Some (False, r, s') \<and> step_over_armed d bm s'"
proof -
  have "check_breakpoint evl (breakpoint_manager s) (co_filename frm) (f_lineno frm) (f_scope frm)
          = (None, bm)"
    using assms(1,4) by (simp add: step_over_armed_def no_breakpoint_at_def check_breakpoint_none)
  then show ?thesis
    using assms(1-3)
    by (cases e)
      (auto simp: step_over_armed_def line_at_or_above_def trace_dispatch_def event_decision_def
        Let_def)
qed

lemma armed_run:
  assumes "step_over_armed d bm s"
    and "\<forall>fe \<in> set es. snd fe \<noteq> Exception \<and> no_breakpoint_at bm (fst fe)"
  shows "map_option (\<lambda>(i, r, s'). (i, r)) (run_to_stop evl s es)
           = map_option (\<lambda>i. (i, Some Next_reason)) (first_position (line_at_or_above d) es)"
  using assms
proof (induction es arbitrary: s)
  case Nil
  then show ?case by simp
next
  case (Cons fe es)
  obtain frm e where fe: "fe = (frm, e)" by (cases fe)
  show ?case
  proof (cases "line_at_or_above d (frm, e)")
    case True
    with armed_line_stops [OF Cons.prems(1) True, of evl] show ?thesis
      by (auto simp: fe)
  next
    case False
    from Cons.prems(2) have ok: "e \<noteq> Exception" "no_breakpoint_at bm frm"
      by (simp_all add: fe)
    from armed_other_passes [OF Cons.prems(1) False ok, of evl] obtain r s' where
      step: "trace_dispatch evl s frm e = Some (False, r, s')" and armed: "step_over_armed d bm s'"
      by blast
    have "map_option (\<lambda>(i, r, s'). (i, r)) (run_to_stop evl s' es)
           = map_option (\<lambda>i. (i, Some Next_reason)) (first_position (line_at_or_above d) es)"
      using Cons.IH [OF armed] Cons.prems(2) by simp
    then show ?thesis
      using False step
      by (cases "run_to_stop evl s' es"; cases "first_position (line_at_or_above d) es")
        (auto simp: fe)
  qed
qed

lemma next_then_call:
  assumes "\<not> quit_debugger s" and "no_breakpoint_at (breakpoint_manager s) frm"
  shows "\<exists>r s'. trace_dispatch evl (snd (do_next s)) frm Call = Some (False, r, s')
           \<and> step_over_armed (get_frame_depth (execution_frame s)) (breakpoint_manager s) s'"
proof -
  have "check_breakpoint evl (breakpoint_manager s) (co_filename frm) (f_lineno frm) (f_scope frm)
          = (None, breakpoint_manager s)"
    using assms(2) by (simp add: no_breakpoint_at_def check_breakpoint_none)
  then show ?thesis
    using assms(1)
    by (simp add: do_next_def configure_for_step_over_def step_over_armed_def trace_dispatch_def
        event_decision_def Let_def)
qed

lemma next_then_line:
  assumes "\<not> quit_debugger s"
    and "line_at_or_above (get_frame_depth (execution_frame s)) (frm, e)"
  shows "\<exists>s'. trace_dispatch evl (snd (do_next s)) frm e = Some (True, Some Next_reason, s')"
  using assms
  by (simp add: do_next_def configure_for_step_over_def line_at_or_above_def trace_dispatch_def
      event_decision_def Let_def)

text \<open>
  Claim C3, as amended. The operator enters \<open>next\<close> in a frame of depth \<open>d\<close>. Over the events
  that follow, none of them an \<open>exception\<close> event and none at a location with a breakpoint,
  and the first of them a \<open>call\<close> event or a \<open>line\<close> event of depth at most \<open>d\<close>: the next stop
  is at the first \<open>line\<close> event whose depth is at most \<open>d\<close>, with the reason \<open>Next\<close>, and there
  is no stop if there is no such event. So no \<open>call\<close> event stops, and no \<open>line\<close> event of a
  deeper frame does.
\<close>

theorem step_over_stops_at_first_line_at_or_above:
  assumes "\<not> quit_debugger s" and "d = get_frame_depth (execution_frame s)"
    and "\<forall>fe \<in> set (fe0 # es).
           snd fe \<noteq> Exception \<and> no_breakpoint_at (breakpoint_manager s) (fst fe)"
    and "snd fe0 = Call \<or> line_at_or_above d fe0"
  shows "fst (do_next s)
       \<and> map_option (\<lambda>(i, r, s'). (i, r)) (run_to_stop evl (snd (do_next s)) (fe0 # es))
           = map_option (\<lambda>i. (i, Some Next_reason))
               (first_position (line_at_or_above d) (fe0 # es))"
proof
  show "fst (do_next s)" by (simp add: do_next_def)
  obtain frm e where fe0: "fe0 = (frm, e)" by (cases fe0)
  show "map_option (\<lambda>(i, r, s'). (i, r)) (run_to_stop evl (snd (do_next s)) (fe0 # es))
           = map_option (\<lambda>i. (i, Some Next_reason))
               (first_position (line_at_or_above d) (fe0 # es))"
  proof (cases "line_at_or_above d fe0")
    case True
    with next_then_line [OF assms(1), of frm e evl] assms(2) show ?thesis
      by (auto simp: fe0)
  next
    case False
    with assms(4) have call: "e = Call" by (simp add: fe0)
    from assms(3) have nb: "no_breakpoint_at (breakpoint_manager s) frm" by (simp add: fe0)
    from next_then_call [OF assms(1) nb, of evl] obtain r s' where
      step: "trace_dispatch evl (snd (do_next s)) frm Call = Some (False, r, s')"
      and armed: "step_over_armed d (breakpoint_manager s) s'"
      using assms(2) by blast
    have rest: "map_option (\<lambda>(i, r, s'). (i, r)) (run_to_stop evl s' es)
           = map_option (\<lambda>i. (i, Some Next_reason)) (first_position (line_at_or_above d) es)"
      using armed_run [OF armed, of es evl] assms(3) by simp
    show ?thesis
      using False step rest call
      by (cases "run_to_stop evl s' es"; cases "first_position (line_at_or_above d) es")
        (auto simp: fe0)
  qed
qed

theorem step_over_stops_at_first_line_at_or_above_witness:
  "map_option (\<lambda>(i, r, s'). (i, r))
     (run_to_stop no_eval (snd (do_next demo_session))
        [(demo_helper 50, Call), (demo_helper 51, Line), (demo_helper 52, Return),
         (demo_work 12, Line)])
     = Some (3, Some Next_reason)"
  using step_over_stops_at_first_line_at_or_above [of demo_session 2 "(demo_helper 50, Call)"
      "[(demo_helper 51, Line), (demo_helper 52, Return), (demo_work 12, Line)]" no_eval]
  by (simp add: demo_session_fields demo_depths no_breakpoint_at_def bp_at_def
      init_breakpoint_manager_def line_at_or_above_def numeral_3_eq_3)

text \<open>
  Claim C3 as stated fails: breakpoints are checked on every event that has not decided to
  stop, whatever the mode. With a breakpoint on line 50 of the file, the \<open>call\<close> event of
  \<open>helper\<close> (whose first line is 50) stops after \<open>next\<close>.
\<close>

theorem step_over_stops_on_call_at_breakpoint:
  "map_option (\<lambda>(stop_now, r, s'). (stop_now, r))
     (trace_dispatch no_eval (snd (do_next (snd (do_break_at demo_session ''/app.py'' 50 None))))
        (demo_helper 50) Call)
     = Some (True, Some (BP_reason (Some 1)))"
  by (simp add: do_next_def do_break_at_def add_breakpoint_def configure_for_step_over_def
      demo_session_fields session_defs should_stop_def eval_condition_def
      new_breakpoint_info_def get_bp_id_def upto.simps)

text \<open>
  Claim C4 as stated fails: after the first stop of the sample session, the command \<open>step\<close>
  resumes it with the pending flag set.
\<close>

theorem pending_flag_set_by_step:
  "initial_trace_for_this_func_entry no_eval (demo_work 10)
     = Some (True, Some Initial_entry, demo_session)
   \<and> fst (do_step demo_session)
   \<and> request_stop_at_next_suitable_event (state_manager (snd (do_step demo_session)))"
  by (simp add: demo_session_entry do_step_def configure_for_step_into_def)

text \<open>
  Claim C4, as amended. The pending flag \<open>request_stop_at_next_suitable_event\<close> is set when
  the session is built; every event that \<open>trace_dispatch\<close> handles reads and clears it, so it
  is clear at every prompt; \<open>continue\<close> leaves it clear, and each of \<open>step\<close>, \<open>next\<close>, \<open>finish\<close>
  and \<open>until\<close> that resumes the program sets it again.
\<close>

theorem pending_flag_lifecycle:
  "request_stop_at_next_suitable_event (state_manager (new_py_debugger entry))
   \<and> (trace_dispatch evl s frm e = Some (stop_now, r, s')
        \<longrightarrow> \<not> request_stop_at_next_suitable_event (state_manager s'))
   \<and> \<not> request_stop_at_next_suitable_event (state_manager (snd (do_continue s)))
   \<and> request_stop_at_next_suitable_event (state_manager (snd (do_step s)))
   \<and> request_stop_at_next_suitable_event (state_manager (snd (do_next s)))
   \<and> (fst (do_finish s)
        \<longrightarrow> request_stop_at_next_suitable_event (state_manager (snd (do_finish s))))
   \<and> (fst (do_rununtil s a)
        \<longrightarrow> request_stop_at_next_suitable_event (state_manager (snd (do_rununtil s a))))"
proof -
  have "trace_dispatch evl s frm e = Some (stop_now, r, s')
        \<Longrightarrow> \<not> request_stop_at_next_suitable_event (state_manager s')"
    using trace_dispatch_state_manager [of evl s frm e stop_now r s']
    by (simp add: Let_def reset_stepping_flags_def)
  then show ?thesis
    by (auto simp: new_py_debugger_def init_state_manager_def do_continue_def
        configure_for_run_def reset_stepping_flags_def do_step_def configure_for_step_into_def
        do_next_def configure_for_step_over_def do_finish_def configure_for_step_out_def
        do_rununtil_def configure_for_run_until_def split: option.splits int_arg.splits)
qed

theorem pending_flag_lifecycle_witness:
  "trace_dispatch no_eval (new_py_debugger (demo_work 10)) (demo_work 10) Call
     = Some (True, Some Initial_entry, demo_session)
   \<and> \<not> request_stop_at_next_suitable_event (state_manager demo_session)
   \<and> fst (do_finish demo_session)
   \<and> request_stop_at_next_suitable_event (state_manager (snd (do_finish demo_session)))
   \<and> fst (do_rununtil demo_session (Int_arg 42))
   \<and> request_stop_at_next_suitable_event
        (state_manager (snd (do_rununtil demo_session (Int_arg 42))))"
proof -
  have entry: "trace_dispatch no_eval (new_py_debugger (demo_work 10)) (demo_work 10) Call
     = Some (True, Some Initial_entry, demo_session)"
    using demo_session_entry by (simp add: initial_trace_for_this_func_entry_def)
  have fin: "fst (do_finish demo_session)"
    by (simp add: do_finish_def demo_session_fields demo_work_def)
  have unt: "fst (do_rununtil demo_session (Int_arg 42))"
    by (simp add: do_rununtil_def demo_session_fields)
  from entry
    pending_flag_lifecycle [where evl = no_eval and s = "new_py_debugger (demo_work 10)"
      and frm = "demo_work 10" and e = Call and stop_now = True and r = "Some Initial_entry"
      and s' = demo_session]
  have "\<not> request_stop_at_next_suitable_event (state_manager demo_session)"
    by blast
  moreover from fin unt pending_flag_lifecycle [where s = demo_session and a = "Int_arg 42"]
  have "request_stop_at_next_suitable_event (state_manager (snd (do_finish demo_session)))
      \<and> request_stop_at_next_suitable_event
          (state_manager (snd (do_rununtil demo_session (Int_arg 42))))"
    by blast
  ultimately show ?thesis
    using entry fin unt by blast
qed

text \<open>
  Claim C9. \<open>up\<close> and \<open>down\<close> with a count \<open>c\<close> (1 when no count is given): when the position
  \<open>idx + c\<close>, respectively \<open>idx - c\<close>, is outside \<open>[0, len)\<close> of the captured stack, the command
  reports \<open>"Cannot move further up."\<close>, respectively \<open>"Cannot move further down."\<close> (\<open>"No stack."\<close>
  when nothing is captured) and leaves the session, its inspection cursor included, as it
  was; the same command again gives the same report and the same session.
\<close>

theorem navigation_out_of_bounds_keeps_cursor:
  assumes "count_of arg_str = Some c"
  shows "(\<not> (0 \<le> interaction_stack_idx s + c
              \<and> interaction_stack_idx s + c < int (length (full_stack_at_stop s)))
          \<longrightarrow> do_up_stack s arg_str =
                (if full_stack_at_stop s = [] then No_stack else Cannot_move_further_up, s)
              \<and> do_up_stack (snd (do_up_stack s arg_str)) arg_str = do_up_stack s arg_str)
       \<and> (\<not> (0 \<le> interaction_stack_idx s - c
              \<and> interaction_stack_idx s - c < int (length (full_stack_at_stop s)))
          \<longrightarrow> do_down_stack s arg_str =
                (if full_stack_at_stop s = [] then No_stack else Cannot_move_further_down, s)
              \<and> do_down_stack (snd (do_down_stack s arg_str)) arg_str = do_down_stack s arg_str)"
  using assms by (simp add: do_up_stack_def do_down_stack_def Let_def)

theorem navigation_out_of_bounds_keeps_cursor_witness:
  "do_up_stack demo_session (Int_arg 2) = (Cannot_move_further_up, demo_session)
   \<and> do_down_stack demo_session No_arg = (Cannot_move_further_down, demo_session)
   \<and> interaction_stack_idx demo_session = 0
   \<and> length (full_stack_at_stop demo_session) = 2"
proof -
  have st: "interaction_stack_idx demo_session = 0"
    "full_stack_at_stop demo_session = [demo_work 10, demo_main 30]"
    by (simp_all add: demo_session_def session_defs)
  from navigation_out_of_bounds_keeps_cursor [of "Int_arg 2" 2 demo_session]
    navigation_out_of_bounds_keeps_cursor [of No_arg 1 demo_session] st
  show ?thesis by simp
qed

lemmas manager_defs =
  add_breakpoint_def init_breakpoint_manager_def new_breakpoint_info_def check_breakpoint_def
  should_stop_def eval_condition_def bp_at_def Let_def

text \<open>
  Claim C7, evaluated on the code. \<open>add_breakpoint\<close> twice at line 10 of one file: both calls
  succeed, with the ids 1 and 2; the location index then holds the second object only, and
  the id index holds both. The registry has neither rejected the duplicate nor replaced the
  first breakpoint in both indices. Clearing id 1 then deletes the location entry, which
  belongs to breakpoint 2: that breakpoint is still enabled and still in the id index, but
  no hit evaluation finds it, and clearing id 2 raises \<open>KeyError\<close>.
\<close>

theorem duplicate_location_leaves_stale_id:
  "fst (add_breakpoint init_breakpoint_manager ''/app.py'' 10 None 0) = 1
   \<and> fst (add_breakpoint (snd (add_breakpoint init_breakpoint_manager ''/app.py'' 10 None 0))
            ''/app.py'' 10 None 0) = 2
   \<and> breakpoints_by_id set_twice 1 = Some 0
   \<and> breakpoints_by_id set_twice 2 = Some 1
   \<and> map_option (\<lambda>per_file. per_file 10) (breakpoints_by_file set_twice ''/app.py'')
       = Some (Some 1)
   \<and> (case clear_breakpoint_id set_twice 1 of
         Inl err \<Rightarrow> False
       | Inr (removed, bm) \<Rightarrow>
           removed
           \<and> breakpoints_by_id bm 2 = Some 1
           \<and> map_option enabled (objects bm 1) = Some True
           \<and> breakpoints_by_file bm ''/app.py'' = None
           \<and> fst (check_breakpoint no_eval bm ''/app.py'' 10 ()) = None
           \<and> clear_breakpoint_id bm 2 = Inl KeyError)"
  by (simp add: set_twice_def clear_breakpoint_id_def manager_defs)

text \<open>
  Claim C6. A hit on a present, enabled breakpoint increments its hit counter whatever the
  answer of \<open>check_breakpoint\<close> is. And the scenario: a breakpoint at line 10 with the condition
  \<open>x > 3\<close> and ignore count 0, in a running session; two \<open>line\<close> events at line 10, the condition
  false in the scope of the first and true in the scope of the second. The first event does
  not stop, the second stops with the breakpoint as the reason, and the hit counter reads 2.
\<close>

theorem hit_counter_counts_every_hit:
  "(bp_at bm f ln = Some b \<and> enabled b
      \<longrightarrow> map_option hit_count (bp_at (snd (check_breakpoint evl bm f ln sc)) f ln)
            = Some (hit_count b + 1))
   \<and> (\<not> quit_debugger s \<and> breakpoint_manager s = init_breakpoint_manager
        \<and> evl ''x > 3'' sca = Some False \<and> evl ''x > 3'' scb = Some True
      \<longrightarrow> (case run_to_stop evl
                   (snd (do_continue (snd (do_break_at s f 10 (Some ''x > 3'')))))
                   [(Frame f nm 10 sca caller, Line), (Frame f nm 10 scb caller, Line)] of
              None \<Rightarrow> False
            | Some (i, r, s') \<Rightarrow>
                i = 1 \<and> r = Some (BP_reason (Some 1))
                \<and> map_option hit_count (bp_at (breakpoint_manager s') f 10) = Some 2))"
proof
  show "bp_at bm f ln = Some b \<and> enabled b
      \<longrightarrow> map_option hit_count (bp_at (snd (check_breakpoint evl bm f ln sc)) f ln)
            = Some (hit_count b + 1)"
    by (auto simp: bp_at_def check_breakpoint_def should_stop_def Let_def
        split: option.splits prod.splits)
  show "\<not> quit_debugger s \<and> breakpoint_manager s = init_breakpoint_manager
        \<and> evl ''x > 3'' sca = Some False \<and> evl ''x > 3'' scb = Some True
      \<longrightarrow> (case run_to_stop evl
                   (snd (do_continue (snd (do_break_at s f 10 (Some ''x > 3'')))))
                   [(Frame f nm 10 sca caller, Line), (Frame f nm 10 scb caller, Line)] of
              None \<Rightarrow> False
            | Some (i, r, s') \<Rightarrow>
                i = 1 \<and> r = Some (BP_reason (Some 1))
                \<and> map_option hit_count (bp_at (breakpoint_manager s') f 10) = Some 2)"
    by (simp add: do_continue_def do_break_at_def configure_for_run_def reset_stepping_flags_def
        trace_dispatch_def event_decision_def manager_defs get_bp_id_def upto.simps)
qed

theorem hit_counter_counts_every_hit_witness:
  "(case run_to_stop eval_x_gt_3
           (snd (do_continue (snd (do_break_at
              (new_py_debugger (Frame ''/app.py'' ''work'' 8 [''x'' \<mapsto> 2] None))
              ''/app.py'' 10 (Some ''x > 3'')))))
           [(Frame ''/app.py'' ''work'' 10 [''x'' \<mapsto> 2] None, Line),
            (Frame ''/app.py'' ''work'' 10 [''x'' \<mapsto> 5] None, Line)] of
      None \<Rightarrow> False
    | Some (i, r, s') \<Rightarrow>
        i = 1 \<and> r = Some (BP_reason (Some 1))
        \<and> map_option hit_count (bp_at (breakpoint_manager s') ''/app.py'' 10) = Some 2)"
  using hit_counter_counts_every_hit [where evl = eval_x_gt_3
      and s = "new_py_debugger (Frame ''/app.py'' ''work'' 8 [''x'' \<mapsto> 2] None)"
      and sca = "[''x'' \<mapsto> 2]" and scb = "[''x'' \<mapsto> 5]" and f = "''/app.py''"
      and nm = "''work''" and caller = None]
  by (simp add: eval_x_gt_3_def new_py_debugger_def)

lemma add_breakpoint_replaces_location:
  "bp_at (snd (add_breakpoint bm f ln c ig)) f ln = Some (new_breakpoint_info ln f c ig)"
  by (simp add: add_breakpoint_def bp_at_def Let_def)

subsection \<open>Splitting a dotted name\<close>

lemma split_on_no_sep: "sep \<notin> set xs \<Longrightarrow> split_on sep xs = [xs]"
  by (induction xs) auto

lemma split_on_first: "sep \<notin> set xs \<Longrightarrow> split_on sep (xs @ sep # ys) = xs # split_on sep ys"
  by (induction xs) auto

lemma split_on_two:
  "sep \<notin> set xs \<Longrightarrow> sep \<notin> set ys \<Longrightarrow> split_on sep (xs @ sep # ys) = [xs, ys]"
  by (simp add: split_on_first split_on_no_sep)

subsection \<open>What a visit changes\<close>

lemma visit_ok_refl: "visit_ok self self ls"
  by (simp add: visit_ok_def)

lemma visit_ok_trans:
  assumes "visit_ok s1 s2 ls1" and "visit_ok s2 s3 ls2"
  shows "visit_ok s1 s3 (ls1 @ ls2)"
  using assms by (auto simp: visit_ok_def)

lemma generic_visit_ok:
  assumes "\<And>n self. n \<in> set ns \<Longrightarrow>
             visit_ok self (visit self n)
               (function_lines (func_name_parts self) (current_path self) n)"
  shows "visit_ok self (generic_visit self ns)
           (function_lines_list (func_name_parts self) (current_path self) ns)"
  using assms
proof (induction ns arbitrary: self)
  case Nil
  show ?case by (simp add: visit_ok_refl)
next
  case (Cons n ns)
  have first: "visit_ok self (visit self n)
                 (function_lines (func_name_parts self) (current_path self) n)"
    by (rule Cons.prems) simp
  have rest: "visit_ok (visit self n) (generic_visit (visit self n) ns)
                (function_lines_list (func_name_parts (visit self n))
                   (current_path (visit self n)) ns)"
    by (rule Cons.IH) (simp add: Cons.prems)
  from first have same: "func_name_parts (visit self n) = func_name_parts self"
    "current_path (visit self n) = current_path self"
    by (simp_all add: visit_ok_def)
  from visit_ok_trans [OF first rest] show ?case
    by (simp add: same)
qed

lemma visit_async: "visit self (AsyncFunctionDef name ln body) = visit self (FunctionDef name ln body)"
  by simp

lemma function_lines_async:
  "function_lines parts path (AsyncFunctionDef name ln body)
     = function_lines parts path (FunctionDef name ln body)"
  by simp

text \<open>The three ways through \<open>visit_FunctionDef\<close> and the two through \<open>visit_ClassDef\<close>.\<close>

lemma visit_function_hit:
  assumes "current_path self @ [name] = func_name_parts self"
  shows "visit self (FunctionDef name ln body) = self\<lparr>target_lineno := Some ln\<rparr>"
proof -
  have "butlast (func_name_parts self) = current_path self"
    using assms by (metis butlast_snoc)
  then show ?thesis
    using assms by (simp add: Let_def)
qed

lemma visit_function_skip:
  assumes "current_path self @ [name] \<noteq> func_name_parts self"
    and "\<not> (falsy (target_lineno self)
            \<and> Suc (length (current_path self)) < length (func_name_parts self)
            \<and> take (Suc (length (current_path self))) (func_name_parts self)
                = current_path self @ [name])"
  shows "visit self (FunctionDef name ln body) = self"
  using assms by (auto simp: Let_def)

lemma visit_function_descend:
  assumes "current_path self @ [name] \<noteq> func_name_parts self"
    and "falsy (target_lineno self)"
    and "Suc (length (current_path self)) < length (func_name_parts self)"
    and "take (Suc (length (current_path self))) (func_name_parts self) = current_path self @ [name]"
  shows "visit self (FunctionDef name ln body) =
           (generic_visit (self\<lparr>current_path := current_path self @ [name]\<rparr>) body)
             \<lparr>current_path :=
                butlast (current_path
                  (generic_visit (self\<lparr>current_path := current_path self @ [name]\<rparr>) body))\<rparr>"
  using assms by (simp add: Let_def)

lemma visit_class_skip:
  assumes "take (Suc (length (current_path self))) (func_name_parts self)
             \<noteq> current_path self @ [name]"
  shows "visit self (ClassDef name ln body) = self"
  using assms by (auto simp: Let_def)

lemma visit_class_descend:
  assumes "take (Suc (length (current_path self))) (func_name_parts self)
             = current_path self @ [name]"
  shows "visit self (ClassDef name ln body) =
           (generic_visit (self\<lparr>current_path := current_path self @ [name]\<rparr>) body)
             \<lparr>current_path :=
                butlast (current_path
                  (generic_visit (self\<lparr>current_path := current_path self @ [name]\<rparr>) body))\<rparr>"
proof -
  have "Suc (length (current_path self)) \<le> length (func_name_parts self)"
    using assms by (metis length_append_singleton length_take min.cobounded1)
  then show ?thesis
    using assms by (simp add: Let_def)
qed

lemma visit_def_ok:
  assumes "\<And>self. visit_ok self (generic_visit self body)
             (function_lines_list (func_name_parts self) (current_path self) body)"
  shows "visit_ok self (visit self (FunctionDef name ln body))
           (function_lines (func_name_parts self) (current_path self) (FunctionDef name ln body))"
    and "visit_ok self (visit self (ClassDef name ln body))
           (function_lines (func_name_parts self) (current_path self) (ClassDef name ln body))"
proof -
  let ?a = "self\<lparr>current_path := current_path self @ [name]\<rparr>"
  have a: "visit_ok ?a (generic_visit ?a body)
             (function_lines_list (func_name_parts self) (current_path self @ [name]) body)"
    using assms [of ?a] by simp
  have down: "visit_ok self
                ((generic_visit ?a body)
                   \<lparr>current_path := butlast (current_path (generic_visit ?a body))\<rparr>)
                (function_lines_list (func_name_parts self) (current_path self @ [name]) body)"
    using a by (auto simp: visit_ok_def)
  show "visit_ok self (visit self (FunctionDef name ln body))
           (function_lines (func_name_parts self) (current_path self) (FunctionDef name ln body))"
  proof (cases "current_path self @ [name] = func_name_parts self")
    case True
    then show ?thesis
      by (simp add: visit_function_hit [OF True] visit_ok_def del: visit.simps)
  next
    case False
    show ?thesis
    proof (cases "falsy (target_lineno self)
            \<and> Suc (length (current_path self)) < length (func_name_parts self)
            \<and> take (Suc (length (current_path self))) (func_name_parts self)
                = current_path self @ [name]")
      case True
      then have "visit self (FunctionDef name ln body) =
           (generic_visit ?a body)\<lparr>current_path := butlast (current_path (generic_visit ?a body))\<rparr>"
        using False by (intro visit_function_descend) simp_all
      with False down show ?thesis
        by (simp del: visit.simps)
    next
      case no: False
      have "visit self (FunctionDef name ln body) = self"
        using False no by (rule visit_function_skip)
      with False show ?thesis
        by (simp add: visit_ok_def del: visit.simps)
    qed
  qed
  show "visit_ok self (visit self (ClassDef name ln body))
           (function_lines (func_name_parts self) (current_path self) (ClassDef name ln body))"
  proof (cases "take (Suc (length (current_path self))) (func_name_parts self)
             = current_path self @ [name]")
    case True
    with down show ?thesis
      by (simp add: visit_class_descend [OF True] del: visit.simps)
  next
    case False
    then show ?thesis
      by (simp add: visit_class_skip [OF False] visit_ok_def del: visit.simps)
  qed
qed

lemma visit_sound:
  "visit_ok self (visit self node)
     (function_lines (func_name_parts self) (current_path self) node)"
proof (induction node arbitrary: self)
  case (FunctionDef name ln body)
  then show ?case by (intro visit_def_ok(1) generic_visit_ok) simp
next
  case (AsyncFunctionDef name ln body)
  then have "visit_ok self (visit self (FunctionDef name ln body))
     (function_lines (func_name_parts self) (current_path self) (FunctionDef name ln body))"
    by (intro visit_def_ok(1) generic_visit_ok) simp
  then show ?case by (simp only: visit_async function_lines_async)
next
  case (ClassDef name ln body)
  then show ?case by (intro visit_def_ok(2) generic_visit_ok) simp
next
  case (Other_node body)
  then show ?case using generic_visit_ok [of body self] by simp
qed

lemma generic_visit_sound:
  "visit_ok self (generic_visit self ns)
     (function_lines_list (func_name_parts self) (current_path self) ns)"
  by (rule generic_visit_ok) (rule visit_sound)

subsection \<open>Where the searched functions can be\<close>

lemma take_snoc_prefix:
  assumes "Suc (length path) \<le> length parts" and "take (Suc (length path)) parts = path @ [name]"
  shows "length path < length parts \<and> take (length path) parts = path"
proof -
  have "take (length path) (take (Suc (length path)) parts) = take (length path) (path @ [name])"
    using assms(2) by simp
  then show ?thesis using assms(1) by simp
qed

lemma function_lines_prefix:
  "function_lines parts path node \<noteq> [] \<Longrightarrow>
     length path < length parts \<and> take (length path) parts = path"
  and function_lines_list_prefix:
  "function_lines_list parts path nodes \<noteq> [] \<Longrightarrow>
     length path < length parts \<and> take (length path) parts = path"
proof (induction parts path node and parts path nodes
       rule: function_lines_function_lines_list.induct)
  case (1 parts path name ln body)
  show ?case
  proof (cases "path @ [name] = parts")
    case True
    then have "length parts = Suc (length path)" "take (length path) parts = path"
      by auto
    then show ?thesis by simp
  next
    case False
    with 1 have "length (path @ [name]) < length parts
                 \<and> take (length (path @ [name])) parts = path @ [name]"
      by simp
    then show ?thesis using take_snoc_prefix [of path parts name] by simp
  qed
next
  case (2 parts path name ln body)
  show ?case
  proof (cases "path @ [name] = parts")
    case True
    then have "length parts = Suc (length path)" "take (length path) parts = path"
      by auto
    then show ?thesis by simp
  next
    case False
    with 2 have "length (path @ [name]) < length parts
                 \<and> take (length (path @ [name])) parts = path @ [name]"
      by simp
    then show ?thesis using take_snoc_prefix [of path parts name] by simp
  qed
next
  case (3 parts path name ln body)
  then have "length (path @ [name]) < length parts
             \<and> take (length (path @ [name])) parts = path @ [name]"
    by simp
  then show ?case using take_snoc_prefix [of path parts name] by simp
next
  case (4 parts path body)
  then show ?case by simp
next
  case (5 parts path)
  then show ?case by simp
next
  case (6 parts path node nodes)
  then show ?case by auto
qed

subsection \<open>A function at the searched path is found\<close>

lemma visit_ok_truthy:
  assumes "visit_ok self self' ls" and "\<not> falsy (target_lineno self)" and "0 \<notin> set ls"
  shows "\<not> falsy (target_lineno self')"
  using assms by (auto simp: visit_ok_def)

lemma generic_visit_finds:
  assumes "\<And>n self. n \<in> set ns \<Longrightarrow>
             function_lines (func_name_parts self) (current_path self) n \<noteq> [] \<Longrightarrow>
             0 \<notin> set (function_lines (func_name_parts self) (current_path self) n) \<Longrightarrow>
             \<not> falsy (target_lineno (visit self n))"
    and "function_lines_list (func_name_parts self) (current_path self) ns \<noteq> []"
    and "0 \<notin> set (function_lines_list (func_name_parts self) (current_path self) ns)"
  shows "\<not> falsy (target_lineno (generic_visit self ns))"
  using assms
proof (induction ns arbitrary: self)
  case Nil
  then show ?case by simp
next
  case (Cons n ns)
  let ?parts = "func_name_parts self" and ?path = "current_path self"
  have ok: "visit_ok self (visit self n) (function_lines ?parts ?path n)"
    by (rule visit_sound)
  then have same: "func_name_parts (visit self n) = ?parts" "current_path (visit self n) = ?path"
    by (simp_all add: visit_ok_def)
  from Cons.prems(3) have nz: "0 \<notin> set (function_lines ?parts ?path n)"
    "0 \<notin> set (function_lines_list ?parts ?path ns)"
    by simp_all
  show ?case
  proof (cases "function_lines ?parts ?path n = []")
    case True
    with Cons.prems(2) have "function_lines_list ?parts ?path ns \<noteq> []" by simp
    then have "\<not> falsy (target_lineno (generic_visit (visit self n) ns))"
      using nz(2) by (intro Cons.IH) (simp_all add: same Cons.prems(1))
    then show ?thesis by simp
  next
    case False
    then have found: "\<not> falsy (target_lineno (visit self n))"
      using nz(1) by (intro Cons.prems(1)) simp_all
    have rest: "visit_ok (visit self n) (generic_visit (visit self n) ns)
                  (function_lines_list ?parts ?path ns)"
      using generic_visit_sound [of "visit self n" ns] by (simp add: same)
    have "\<not> falsy (target_lineno (generic_visit (visit self n) ns))"
      by (rule visit_ok_truthy [OF rest found nz(2)])
    then show ?thesis by simp
  qed
qed

lemma descend_finds:
  assumes body: "\<And>self. function_lines_list (func_name_parts self) (current_path self) body \<noteq> [] \<Longrightarrow>
             0 \<notin> set (function_lines_list (func_name_parts self) (current_path self) body) \<Longrightarrow>
             \<not> falsy (target_lineno (generic_visit self body))"
    and ne: "function_lines_list (func_name_parts self) (current_path self @ [name]) body \<noteq> []"
    and nz: "0 \<notin> set (function_lines_list (func_name_parts self) (current_path self @ [name]) body)"
  shows "\<not> falsy (target_lineno
            (generic_visit (self\<lparr>current_path := current_path self @ [name]\<rparr>) body))"
  using body [of "self\<lparr>current_path := current_path self @ [name]\<rparr>"] ne nz by simp

lemma visit_def_finds:
  assumes body: "\<And>self. function_lines_list (func_name_parts self) (current_path self) body \<noteq> [] \<Longrightarrow>
             0 \<notin> set (function_lines_list (func_name_parts self) (current_path self) body) \<Longrightarrow>
             \<not> falsy (target_lineno (generic_visit self body))"
  shows "function_lines (func_name_parts self) (current_path self) (FunctionDef name ln body) \<noteq> [] \<Longrightarrow>
         0 \<notin> set (function_lines (func_name_parts self) (current_path self) (FunctionDef name ln body)) \<Longrightarrow>
         \<not> falsy (target_lineno (visit self (FunctionDef name ln body)))"
    and "function_lines (func_name_parts self) (current_path self) (ClassDef name ln body) \<noteq> [] \<Longrightarrow>
         0 \<notin> set (function_lines (func_name_parts self) (current_path self) (ClassDef name ln body)) \<Longrightarrow>
         \<not> falsy (target_lineno (visit self (ClassDef name ln body)))"
proof -
  let ?parts = "func_name_parts self" and ?path = "current_path self"
  let ?below = "function_lines_list ?parts (?path @ [name]) body"
  have below: "\<not> falsy (target_lineno
                 (generic_visit (self\<lparr>current_path := ?path @ [name]\<rparr>) body))"
    if "?below \<noteq> []" and "0 \<notin> set ?below"
    using body that by (rule descend_finds)
  have prefix: "Suc (length ?path) < length ?parts
                \<and> take (Suc (length ?path)) ?parts = ?path @ [name]"
    if "?below \<noteq> []"
    using function_lines_list_prefix [OF that] by simp
  {
    assume ne: "function_lines ?parts ?path (FunctionDef name ln body) \<noteq> []"
      and nz: "0 \<notin> set (function_lines ?parts ?path (FunctionDef name ln body))"
    show "\<not> falsy (target_lineno (visit self (FunctionDef name ln body)))"
    proof (cases "?path @ [name] = ?parts")
      case True
      then have "ln \<noteq> 0" using nz by auto
      then show ?thesis by (simp add: visit_function_hit [OF True] del: visit.simps)
    next
      case False
      then have b: "?below \<noteq> []" "0 \<notin> set ?below" using ne nz by simp_all
      show ?thesis
      proof (cases "falsy (target_lineno self)")
        case True
        have "visit self (FunctionDef name ln body) =
                (generic_visit (self\<lparr>current_path := ?path @ [name]\<rparr>) body)
                  \<lparr>current_path :=
                     butlast (current_path
                       (generic_visit (self\<lparr>current_path := ?path @ [name]\<rparr>) body))\<rparr>"
          using False True prefix [OF b(1)] by (intro visit_function_descend) simp_all
        then show ?thesis using below [OF b] by simp
      next
        case found: False
        then have "visit self (FunctionDef name ln body) = self"
          using False by (intro visit_function_skip) simp_all
        then show ?thesis using found by simp
      qed
    qed
  }
  {
    assume ne: "function_lines ?parts ?path (ClassDef name ln body) \<noteq> []"
      and nz: "0 \<notin> set (function_lines ?parts ?path (ClassDef name ln body))"
    then have b: "?below \<noteq> []" "0 \<notin> set ?below" by simp_all
    have "visit self (ClassDef name ln body) =
            (generic_visit (self\<lparr>current_path := ?path @ [name]\<rparr>) body)
              \<lparr>current_path :=
                 butlast (current_path
                   (generic_visit (self\<lparr>current_path := ?path @ [name]\<rparr>) body))\<rparr>"
      using prefix [OF b(1)] by (intro visit_class_descend) simp_all
    then show "\<not> falsy (target_lineno (visit self (ClassDef name ln body)))"
      using below [OF b] by simp
  }
qed

lemma visit_finds:
  "function_lines (func_name_parts self) (current_path self) node \<noteq> [] \<Longrightarrow>
   0 \<notin> set (function_lines (func_name_parts self) (current_path self) node) \<Longrightarrow>
   \<not> falsy (target_lineno (visit self node))"
proof (induction node arbitrary: self)
  case (FunctionDef name ln body)
  have body: "\<not> falsy (target_lineno (generic_visit self body))"
    if "function_lines_list (func_name_parts self) (current_path self) body \<noteq> []"
      and "0 \<notin> set (function_lines_list (func_name_parts self) (current_path self) body)"
    for self
    using that by (intro generic_visit_finds FunctionDef.IH)
  show ?case using FunctionDef.prems by (intro visit_def_finds(1) body)
next
  case (AsyncFunctionDef name ln body)
  have body: "\<not> falsy (target_lineno (generic_visit self body))"
    if "function_lines_list (func_name_parts self) (current_path self) body \<noteq> []"
      and "0 \<notin> set (function_lines_list (func_name_parts self) (current_path self) body)"
    for self
    using that by (intro generic_visit_finds AsyncFunctionDef.IH)
  have "\<not> falsy (target_lineno (visit self (FunctionDef name ln body)))"
    using AsyncFunctionDef.prems
    by (intro visit_def_finds(1) body) simp_all
  then show ?case unfolding visit_async .
next
  case (ClassDef name ln body)
  have body: "\<not> falsy (target_lineno (generic_visit self body))"
    if "function_lines_list (func_name_parts self) (current_path self) body \<noteq> []"
      and "0 \<notin> set (function_lines_list (func_name_parts self) (current_path self) body)"
    for self
    using that by (intro generic_visit_finds ClassDef.IH)
  show ?case using ClassDef.prems by (intro visit_def_finds(2) body)
next
  case (Other_node body)
  have "\<not> falsy (target_lineno (generic_visit self body))"
    using Other_node.prems by (intro generic_visit_finds Other_node.IH) simp_all
  then show ?case by simp
qed

subsection \<open>Resolving from the root of a module\<close>

lemma resolve_sound:
  "target_lineno (visit (new_function_finder parts) tree) = Some l \<Longrightarrow>
     l \<in> set (function_lines parts [] tree)"
  using visit_sound [of "new_function_finder parts" tree]
  by (auto simp: visit_ok_def new_function_finder_def)

lemma resolve_complete:
  assumes "function_lines parts [] tree \<noteq> []" and "0 \<notin> set (function_lines parts [] tree)"
  shows "\<exists>l. target_lineno (visit (new_function_finder parts) tree) = Some l \<and> l \<noteq> 0"
proof -
  have "\<not> falsy (target_lineno (visit (new_function_finder parts) tree))"
    using assms by (intro visit_finds) (simp_all add: new_function_finder_def)
  then show ?thesis
    by (cases "target_lineno (visit (new_function_finder parts) tree)") simp_all
qed

lemma no_descent:
  assumes "take (Suc (length (current_path self))) (func_name_parts self)
             \<noteq> current_path self @ [name]"
  shows "visit self (ClassDef name ln body) = self"
    and "visit self (FunctionDef name ln body) = self"
    and "visit self (AsyncFunctionDef name ln body) = self"
proof -
  show "visit self (ClassDef name ln body) = self"
    using assms by (rule visit_class_skip)
  have "current_path self @ [name] \<noteq> func_name_parts self"
  proof
    assume eq: "current_path self @ [name] = func_name_parts self"
    show False using assms unfolding eq [symmetric] by simp
  qed
  then show f: "visit self (FunctionDef name ln body) = self"
    using assms by (intro visit_function_skip) simp_all
  then show "visit self (AsyncFunctionDef name ln body) = self"
    by (simp only: visit_async)
qed

lemma find_func_lineno_two_parts:
  assumes "CHR ''.'' \<notin> set A" and "CHR ''.'' \<notin> set b"
  shows "find_func_lineno_using_ast (Some tree) (A @ ''.'' @ b)
           = Inr (target_lineno (visit (new_function_finder [A, b]) tree))"
  using assms by (simp add: find_func_lineno_using_ast_def split_on_two)

text \<open>
  Claim C8, for function declarations. For names \<open>A\<close> and \<open>b\<close> without a dot, resolving
  \<open>"A.b"\<close> in a parsed file returns a result without raising; a line it returns is the
  starting line of a function declaration (\<open>def\<close> or \<open>async def\<close>) named \<open>b\<close> whose enclosing
  declarations are exactly the one named \<open>A\<close>, and it returns such a line whenever the file
  has one (line numbers of a parsed file are not \<open>0\<close>). A top-level function \<open>b\<close> outside
  \<open>A\<close> is never matched: the result is the one of the file without it. And in every state
  of the search, a class or a function whose name does not extend the current nesting to a
  prefix of the dotted path is left without a visit of its body.
\<close>

theorem resolve_dotted_function_name:
  assumes "CHR ''.'' \<notin> set A" and "CHR ''.'' \<notin> set b"
  shows "(\<exists>res. find_func_lineno_using_ast (Some tree) (A @ ''.'' @ b) = Inr res
            \<and> (\<forall>l. res = Some l \<longrightarrow> l \<in> set (function_lines [A, b] [] tree))
            \<and> (function_lines [A, b] [] tree \<noteq> [] \<and> 0 \<notin> set (function_lines [A, b] [] tree)
                 \<longrightarrow> (\<exists>l. res = Some l \<and> l \<noteq> 0)))
         \<and> (A \<noteq> b \<longrightarrow>
              find_func_lineno_using_ast (Some (Other_node (FunctionDef b ln body # rest)))
                  (A @ ''.'' @ b)
                = find_func_lineno_using_ast (Some (Other_node rest)) (A @ ''.'' @ b))
         \<and> (take (Suc (length (current_path self))) (func_name_parts self)
                \<noteq> current_path self @ [name]
              \<longrightarrow> visit self (ClassDef name ln' body') = self
                  \<and> visit self (FunctionDef name ln' body') = self
                  \<and> visit self (AsyncFunctionDef name ln' body') = self)"
proof (intro conjI impI)
  let ?res = "target_lineno (visit (new_function_finder [A, b]) tree)"
  have "find_func_lineno_using_ast (Some tree) (A @ ''.'' @ b) = Inr ?res"
    using assms by (rule find_func_lineno_two_parts)
  moreover have "\<forall>l. ?res = Some l \<longrightarrow> l \<in> set (function_lines [A, b] [] tree)"
    by (auto dest: resolve_sound)
  moreover have "function_lines [A, b] [] tree \<noteq> [] \<and> 0 \<notin> set (function_lines [A, b] [] tree)
                   \<longrightarrow> (\<exists>l. ?res = Some l \<and> l \<noteq> 0)"
    by (auto dest: resolve_complete)
  ultimately show "\<exists>res. find_func_lineno_using_ast (Some tree) (A @ ''.'' @ b) = Inr res
            \<and> (\<forall>l. res = Some l \<longrightarrow> l \<in> set (function_lines [A, b] [] tree))
            \<and> (function_lines [A, b] [] tree \<noteq> [] \<and> 0 \<notin> set (function_lines [A, b] [] tree)
                 \<longrightarrow> (\<exists>l. res = Some l \<and> l \<noteq> 0))"
    by blast
next
  assume "A \<noteq> b"
  then have "visit (new_function_finder [A, b]) (FunctionDef b ln body) = new_function_finder [A, b]"
    by (intro no_descent(2)) (simp add: new_function_finder_def)
  then have "visit (new_function_finder [A, b]) (Other_node (FunctionDef b ln body # rest))
               = visit (new_function_finder [A, b]) (Other_node rest)"
    by (simp del: visit.simps(1) add: visit.simps(4))
  then show "find_func_lineno_using_ast (Some (Other_node (FunctionDef b ln body # rest)))
                  (A @ ''.'' @ b)
                = find_func_lineno_using_ast (Some (Other_node rest)) (A @ ''.'' @ b)"
    by (simp only: find_func_lineno_two_parts [OF assms])
next
  assume "take (Suc (length (current_path self))) (func_name_parts self)
            \<noteq> current_path self @ [name]"
  then show "visit self (ClassDef name ln' body') = self"
    "visit self (FunctionDef name ln' body') = self"
    "visit self (AsyncFunctionDef name ln' body') = self"
    by (rule no_descent)+
qed

theorem resolve_dotted_function_name_witness:
  "CHR ''.'' \<notin> set ''MyClassDemo'' \<and> CHR ''.'' \<notin> set ''my_method''
   \<and> function_lines [''MyClassDemo'', ''my_method''] [] tests_module = [16]
   \<and> find_func_lineno_using_ast (Some tests_module) ''MyClassDemo.my_method'' = Inr (Some 16)
   \<and> find_func_lineno_using_ast
        (Some (Other_node [FunctionDef ''my_method'' 1 [], ClassDef ''MyClassDemo'' 4 []]))
        ''MyClassDemo.my_method''
       = find_func_lineno_using_ast (Some (Other_node [ClassDef ''MyClassDemo'' 4 []]))
           ''MyClassDemo.my_method''
   \<and> visit (new_function_finder [''MyClassDemo'', ''my_method''])
        (FunctionDef ''top_level_function_demo'' 30 [FunctionDef ''my_method'' 43 []])
       = new_function_finder [''MyClassDemo'', ''my_method'']"
proof -
  have lines: "function_lines [''MyClassDemo'', ''my_method''] [] tests_module = [16]"
    by (simp add: tests_module_def)
  have path: "current_path (new_function_finder [''MyClassDemo'', ''my_method'']) = []"
    "func_name_parts (new_function_finder [''MyClassDemo'', ''my_method''])
       = [''MyClassDemo'', ''my_method'']"
    by (simp_all add: new_function_finder_def)
  from resolve_dotted_function_name
         [where A = "''MyClassDemo''" and b = "''my_method''" and tree = tests_module
            and ln = 1 and body = "[]" and rest = "[ClassDef ''MyClassDemo'' 4 []]"
            and self = "new_function_finder [''MyClassDemo'', ''my_method'']"
            and name = "''top_level_function_demo''" and ln' = 30
            and body' = "[FunctionDef ''my_method'' 43 []]"]
  show ?thesis
    by (simp add: lines path del: visit.simps) auto
qed

text \<open>
  Claim C8 as worded, evaluated on the code. In
  \<^verbatim>\<open>class A:\<close> / \<^verbatim>\<open>    class b:\<close> / \<^verbatim>\<open>        pass\<close>
  the declaration named \<open>b\<close> nested inside the declaration named \<open>A\<close> starts at line 2; resolving
  \<open>"A.b"\<close> returns \<open>None\<close>, because \<open>visit_ClassDef\<close> never sets \<open>target_lineno\<close>.
\<close>

theorem nested_class_is_not_resolved:
  "find_func_lineno_using_ast
     (Some (Other_node [ClassDef ''A'' 1 [ClassDef ''b'' 2 [Other_node []]]])) ''A.b''
   = Inr None"
  by (simp add: find_func_lineno_using_ast_def new_function_finder_def Let_def)

end
